theory Spec2Isabelle
  imports Main "HOL-Library.Word"
begin

section \<open>CryptoEx client-side auth store (src/auth.js)\<close>

text \<open>
  A shallow embedding of the data layer of \<^verbatim>\<open>src/auth.js\<close>: email validation and
  password hashing, the users and the session, registration and login, the referral ledger
  and the staged incoming referral, the profiles, and the reads of the raw storage. The
  page's widgets (toast, user menu, redirects, link building) are not part of it.

  \<^item> JavaScript strings are sequences of UTF-16 code units; they are modelled as
    \<^typ>\<open>string\<close>, a \<^typ>\<open>char\<close> standing for a code unit below 256 (the Latin-1 range),
    where white space and lower-casing are the ones JavaScript uses on that range.
    \<^verbatim>\<open>String(x || "")\<close> is the identity on the string arguments the model passes.
  \<^item> What the platform decides (whether \<^verbatim>\<open>crypto.subtle\<close> exists, the digest, the
    random draws, the clock, the path of the page) is an argument, the record \<open>env\<close>.
  \<^item> \<^verbatim>\<open>localStorage\<close> is the state, passed in and returned; a write to it never
    fails. An exception is a value \<open>Inl\<close> of a sum type.
  \<^item> The functions are run one at a time: nothing else runs during the one \<^verbatim>\<open>await\<close>
    of \<^verbatim>\<open>register\<close> and \<^verbatim>\<open>login\<close>.
\<close>

subsection \<open>Strings: trim, toLowerCase\<close>

text \<open>
  \<^verbatim>\<open>\s\<close> and \<^verbatim>\<open>String.prototype.trim\<close> use the same set (WhiteSpace and
  LineTerminator): TAB, LF, VT, FF, CR, SPACE and NBSP are its members below 256.
\<close>

definition js_ws :: "char \<Rightarrow> bool" where
  "js_ws c = (c \<in> set [CHR 0x09, CHR 0x0A, CHR 0x0B, CHR 0x0C, CHR 0x0D, CHR 0x20, CHR 0xA0])"

definition trim :: "string \<Rightarrow> string" where
  "trim s = rev (dropWhile js_ws (rev (dropWhile js_ws s)))"

text \<open>
  \<^verbatim>\<open>toLowerCase\<close> on code units below 256: A-Z and the Latin-1 capitals
  0xC0-0xDE (but the multiplication sign 0xD7) move up by 0x20, every other unit stays.
\<close>

definition toLowerChar :: "char \<Rightarrow> char" where
  "toLowerChar c =
     (let n = (of_char c :: nat) in
      if (65 \<le> n \<and> n \<le> 90) \<or> (192 \<le> n \<and> n \<le> 222 \<and> n \<noteq> 215)
      then char_of (n + 32) else c)"

definition toLowerCase :: "string \<Rightarrow> string" where
  "toLowerCase s = map toLowerChar s"

subsection \<open>Regular expressions and isValidEmail\<close>

text \<open>
  \<^verbatim>\<open>RegExp.prototype.test\<close> of an expression anchored at both ends decides whether the
  whole string is in the expression's language. The matcher takes derivatives, one
  character at a time.
\<close>

datatype rx =
    Never
  | Empty
  | Class "char \<Rightarrow> bool"
  | Cat rx rx
  | Or rx rx
  | Rep rx

fun accepts_empty :: "rx \<Rightarrow> bool" where
  "accepts_empty Never = False"
| "accepts_empty Empty = True"
| "accepts_empty (Class p) = False"
| "accepts_empty (Cat r s) = (accepts_empty r \<and> accepts_empty s)"
| "accepts_empty (Or r s) = (accepts_empty r \<or> accepts_empty s)"
| "accepts_empty (Rep r) = True"

fun after :: "char \<Rightarrow> rx \<Rightarrow> rx" where
  "after c Never = Never"
| "after c Empty = Never"
| "after c (Class p) = (if p c then Empty else Never)"
| "after c (Cat r s) =
     (if accepts_empty r then Or (Cat (after c r) s) (after c s) else Cat (after c r) s)"
| "after c (Or r s) = Or (after c r) (after c s)"
| "after c (Rep r) = Cat (after c r) (Rep r)"

fun rx_test :: "rx \<Rightarrow> string \<Rightarrow> bool" where
  "rx_test r [] = accepts_empty r"
| "rx_test r (c # cs) = rx_test (after c r) cs"

text \<open>\<^verbatim>\<open>r+\<close> and \<^verbatim>\<open>r{2,}\<close>.\<close>

definition rx_plus :: "rx \<Rightarrow> rx" where
  "rx_plus r = Cat r (Rep r)"

definition rx_two_or_more :: "rx \<Rightarrow> rx" where
  "rx_two_or_more r = Cat r (Cat r (Rep r))"

text \<open>The class \<^verbatim>\<open>[^\s@]\<close>.\<close>

definition not_ws_at :: "char \<Rightarrow> bool" where
  "not_ws_at c = (\<not> js_ws c \<and> c \<noteq> CHR ''@'')"

text \<open>\<^verbatim>\<open>/^[^\s@]+@[^\s@]+\.[^\s@]{2,}$/\<close>\<close>

definition email_rx :: rx where
  "email_rx =
     Cat (rx_plus (Class not_ws_at))
       (Cat (Class (\<lambda>c. c = CHR ''@''))
         (Cat (rx_plus (Class not_ws_at))
           (Cat (Class (\<lambda>c. c = CHR ''.''))
             (rx_two_or_more (Class not_ws_at)))))"

definition isValidEmail :: "string \<Rightarrow> bool" where
  "isValidEmail email = rx_test email_rx (trim email)"

subsection \<open>sha256Hex\<close>

text \<open>
  The platform: \<^verbatim>\<open>crypto.subtle\<close> when the browser has it (the SHA-256 digest of the
  UTF-8 encoding of a text, as bytes), the draws of \<^verbatim>\<open>Math.random\<close> already scaled
  to an index of the 32-symbol alphabet (\<^verbatim>\<open>Math.floor(Math.random() * 32)\<close> is one of
  0..31, a 5-bit value), \<^verbatim>\<open>Date.now()\<close> and \<^verbatim>\<open>location.pathname\<close>.
\<close>

record env =
  subtle :: "(string \<Rightarrow> 8 word list) option"
  random :: "nat \<Rightarrow> 5 word"
  now :: nat
  pathname :: string

definition hexDigit :: "nat \<Rightarrow> char" where
  "hexDigit d = ''0123456789abcdef'' ! (d mod 16)"

text \<open>\<^verbatim>\<open>Number.prototype.toString(16)\<close> on a non-negative integer.\<close>

function toString16 :: "nat \<Rightarrow> string" where
  "toString16 n = (if n < 16 then [hexDigit n] else toString16 (n div 16) @ [hexDigit (n mod 16)])"
  by pat_completeness auto
termination
  by (relation "measure id") auto

definition padStart2 :: "string \<Rightarrow> string" where
  "padStart2 s = replicate (2 - length s) CHR ''0'' @ s"

text \<open>
  The fallback loop \<^verbatim>\<open>h = (h * 31 + text.charCodeAt(i)) >>> 0\<close>: \<open>h\<close> stays below
  \<open>2^32\<close>, so \<open>h * 31 + c\<close> is below \<open>2^53\<close> and exact as a JavaScript number, and
  \<^verbatim>\<open>>>> 0\<close> reduces it modulo \<open>2^32\<close>: arithmetic on \<^typ>\<open>32 word\<close>.
\<close>

fun fallback_loop :: "32 word \<Rightarrow> string \<Rightarrow> 32 word" where
  "fallback_loop h [] = h"
| "fallback_loop h (c # cs) = fallback_loop (h * 31 + of_nat (of_char c)) cs"

definition sha256Hex :: "env \<Rightarrow> string \<Rightarrow> string" where
  "sha256Hex E text =
     (case subtle E of
        None \<Rightarrow> ''fallback_'' @ toString16 (unat (fallback_loop 0 text))
      | Some digest \<Rightarrow> concat (map (\<lambda>b. padStart2 (toString16 (unat b))) (digest text)))"

subsection \<open>Plain objects used as dictionaries\<close>

text \<open>
  The ledger and the profile table are plain objects read with \<^verbatim>\<open>obj[key]\<close>. A key the
  object does not hold itself is looked up in \<^verbatim>\<open>Object.prototype\<close>: for the names below
  the read gives an inherited member (a function, or the prototype for \<^verbatim>\<open>__proto__\<close>),
  which is truthy and has no properties of the table's records.
\<close>

definition object_prototype_keys :: "string list" where
  "object_prototype_keys =
     [''constructor'', ''__defineGetter__'', ''__defineSetter__'', ''hasOwnProperty'',
      ''__lookupGetter__'', ''__lookupSetter__'', ''isPrototypeOf'', ''propertyIsEnumerable'',
      ''toString'', ''valueOf'', ''__proto__'', ''toLocaleString'']"

datatype 'a member = Own 'a | Inherited | Absent

definition obj_get :: "(string \<rightharpoonup> 'a) \<Rightarrow> string \<Rightarrow> 'a member" where
  "obj_get m k =
     (case m k of
        Some v \<Rightarrow> Own v
      | None \<Rightarrow> if k \<in> set object_prototype_keys then Inherited else Absent)"

subsection \<open>The persisted tables\<close>

definition USERS_KEY :: string where "USERS_KEY = ''cryptoex_users_v1''"
definition SESSION_KEY :: string where "SESSION_KEY = ''cryptoex_session_v1''"
definition PROFILE_KEY :: string where "PROFILE_KEY = ''cryptoex_profile_v1''"
definition HISTORY_KEY :: string where "HISTORY_KEY = ''cryptoex_history_v1''"
definition REF_LOG_KEY :: string where "REF_LOG_KEY = ''cryptoex_ref_log_v1''"
definition INCOMING_REF_KEY :: string where "INCOMING_REF_KEY = ''cryptoex_incoming_ref_v1''"

text \<open>
  A user as \<^verbatim>\<open>register\<close> stores it. \<open>refCode\<close> is \<open>None\<close> in a record that
  lacks the property (an account older than referral codes).
\<close>

record user =
  email :: string
  passHash :: string
  refCode :: "string option"
  referredBy :: string

text \<open>A click is \<^verbatim>\<open>{ts, path}\<close>, a registration \<^verbatim>\<open>{ts, email}\<close>: pairs.\<close>

record entry =
  clicks :: "(nat \<times> string) list"
  regs :: "(nat \<times> string) list"

datatype jsval = VStr string | VNum int | VBool bool | VNull

type_synonym profile = "string \<rightharpoonup> jsval"

text \<open>
  \<^verbatim>\<open>localStorage\<close>, read through the table it holds under each key: the store holds
  what \<^verbatim>\<open>JSON.stringify\<close> wrote and \<^verbatim>\<open>JSON.parse\<close> gives back, for well-formed
  tables (the reads of raw, possibly malformed text are modelled apart, below).
  \<open>journal\<close> lists the calls of \<^verbatim>\<open>setItem\<close> and \<^verbatim>\<open>removeItem\<close> in the order
  they were made.
\<close>

datatype storage_op = SetItem string | RemoveItem string

record store =
  users :: "user list"
  session :: "string option"
  profiles :: "string \<rightharpoonup> profile"
  refLog :: "string \<rightharpoonup> entry"
  incomingRef :: "string option"
  journal :: "storage_op list"

definition empty_store :: store where
  "empty_store =
     \<lparr>users = [], session = None, profiles = Map.empty, refLog = Map.empty,
      incomingRef = None, journal = []\<rparr>"

definition wrote :: "storage_op \<Rightarrow> store \<Rightarrow> store" where
  "wrote op st = st\<lparr>journal := journal st @ [op]\<rparr>"

definition setUsers :: "user list \<Rightarrow> store \<Rightarrow> store" where
  "setUsers us st = wrote (SetItem USERS_KEY) (st\<lparr>users := us\<rparr>)"

definition getSessionEmail :: "store \<Rightarrow> string" where
  "getSessionEmail st = (case session st of None \<Rightarrow> [] | Some s \<Rightarrow> s)"

definition setSessionEmail :: "string \<Rightarrow> store \<Rightarrow> store" where
  "setSessionEmail e st = wrote (SetItem SESSION_KEY) (st\<lparr>session := Some e\<rparr>)"

definition clearSession :: "store \<Rightarrow> store" where
  "clearSession st = wrote (RemoveItem SESSION_KEY) (st\<lparr>session := None\<rparr>)"

text \<open>\<^verbatim>\<open>logout\<close> is \<^verbatim>\<open>clearSession\<close>.\<close>

definition logout :: "store \<Rightarrow> store" where
  "logout st = clearSession st"

definition setProfile :: "(string \<rightharpoonup> profile) \<Rightarrow> store \<Rightarrow> store" where
  "setProfile pr st = wrote (SetItem PROFILE_KEY) (st\<lparr>profiles := pr\<rparr>)"

definition setRefLog :: "(string \<rightharpoonup> entry) \<Rightarrow> store \<Rightarrow> store" where
  "setRefLog lg st = wrote (SetItem REF_LOG_KEY) (st\<lparr>refLog := lg\<rparr>)"

definition getIncomingRef :: "store \<Rightarrow> string" where
  "getIncomingRef st = trim (case incomingRef st of None \<Rightarrow> [] | Some s \<Rightarrow> s)"

definition setIncomingRef :: "string \<Rightarrow> store \<Rightarrow> store" where
  "setIncomingRef code st = wrote (SetItem INCOMING_REF_KEY) (st\<lparr>incomingRef := Some (trim code)\<rparr>)"

definition clearIncomingRef :: "store \<Rightarrow> store" where
  "clearIncomingRef st = wrote (RemoveItem INCOMING_REF_KEY) (st\<lparr>incomingRef := None\<rparr>)"

subsection \<open>Referral codes\<close>

definition alphabet :: string where
  "alphabet = ''ABCDEFGHJKLMNPQRSTUVWXYZ23456789''"

definition generateRefCode :: "env \<Rightarrow> string" where
  "generateRefCode E = map (\<lambda>i. alphabet ! unat (random E i)) [0 ..< 8]"

text \<open>\<^verbatim>\<open>!u.refCode\<close>: the property is missing or the empty string.\<close>

definition falsy :: "string option \<Rightarrow> bool" where
  "falsy c = (c = None \<or> c = Some [])"

text \<open>\<^verbatim>\<open>Array.prototype.findIndex\<close>; \<open>None\<close> is the result -1.\<close>

fun findIndex :: "('a \<Rightarrow> bool) \<Rightarrow> 'a list \<Rightarrow> nat option" where
  "findIndex P [] = None"
| "findIndex P (x # xs) = (if P x then Some 0 else map_option Suc (findIndex P xs))"

definition same_email :: "string \<Rightarrow> user \<Rightarrow> bool" where
  "same_email e u = (toLowerCase (email u) = toLowerCase e)"

definition ensureUserRefCode :: "env \<Rightarrow> user list \<Rightarrow> string \<Rightarrow> store \<Rightarrow> string option \<times> store" where
  "ensureUserRefCode E us e st =
     (case findIndex (same_email e) us of
        None \<Rightarrow> (None, st)
      | Some idx \<Rightarrow>
          if falsy (refCode (us ! idx))
          then (let c = generateRefCode E
                in (Some c, setUsers (us[idx := (us ! idx)\<lparr>refCode := Some c\<rparr>]) st))
          else (refCode (us ! idx), st))"

text \<open>
  \<^verbatim>\<open>getCurrentUser\<close> returns \<^verbatim>\<open>{email, refCode}\<close> of the first user whose email
  is the session's up to letter case, or null. \<^verbatim>\<open>users.find\<close> gives the element of
  the array itself, so the assignment to \<^verbatim>\<open>u.refCode\<close> updates the array at that index.
\<close>

definition getCurrentUser :: "env \<Rightarrow> store \<Rightarrow> (string \<times> string) option \<times> store" where
  "getCurrentUser E st =
     (let e = getSessionEmail st in
      if e = [] then (None, st)
      else
        (case findIndex (same_email e) (users st) of
           None \<Rightarrow> (None, st)
         | Some i \<Rightarrow>
             (let u = users st ! i in
              if falsy (refCode u)
              then (let c = generateRefCode E
                    in (Some (email u, c), setUsers ((users st)[i := u\<lparr>refCode := Some c\<rparr>]) st))
              else (Some (email u, case refCode u of Some c \<Rightarrow> c | None \<Rightarrow> []), st))))"

subsection \<open>The referral ledger\<close>

datatype exn = TypeError

definition new_entry :: entry where
  "new_entry = \<lparr>clicks = [], regs = []\<rparr>"

text \<open>
  \<^verbatim>\<open>recordRefClick\<close>. When \<^verbatim>\<open>log[c]\<close> is an inherited member it is truthy, no entry
  is created, \<^verbatim>\<open>log[c].clicks\<close> is undefined and \<^verbatim>\<open>.unshift\<close> on it throws a
  TypeError before anything is written.
\<close>

definition recordRefClick :: "env \<Rightarrow> string \<Rightarrow> store \<Rightarrow> exn + store" where
  "recordRefClick E code st =
     (let c = trim code in
      if c = [] then Inr st
      else
        (case obj_get (refLog st) c of
           Inherited \<Rightarrow> Inl TypeError
         | Own en \<Rightarrow>
             Inr (setRefLog ((refLog st)(c \<mapsto> en\<lparr>clicks := take 500 ((now E, pathname E) # clicks en)\<rparr>)) st)
         | Absent \<Rightarrow>
             Inr (setRefLog ((refLog st)(c \<mapsto> new_entry\<lparr>clicks := take 500 ((now E, pathname E) # clicks new_entry)\<rparr>)) st)))"

definition recordRefReg :: "env \<Rightarrow> string \<Rightarrow> string \<Rightarrow> store \<Rightarrow> exn + store" where
  "recordRefReg E code e st =
     (let c = trim code in
      if c = [] then Inr st
      else
        (case obj_get (refLog st) c of
           Inherited \<Rightarrow> Inl TypeError
         | Own en \<Rightarrow>
             Inr (setRefLog ((refLog st)(c \<mapsto> en\<lparr>regs := take 500 ((now E, trim e) # regs en)\<rparr>)) st)
         | Absent \<Rightarrow>
             Inr (setRefLog ((refLog st)(c \<mapsto> new_entry\<lparr>regs := take 500 ((now E, trim e) # regs new_entry)\<rparr>)) st)))"

text \<open>
  \<^verbatim>\<open>getRefStatsFor\<close>: an inherited member has neither \<^verbatim>\<open>clicks\<close> nor
  \<^verbatim>\<open>regs\<close>, so both lists default to empty.
\<close>

definition getRefStatsFor :: "string \<Rightarrow> store \<Rightarrow> entry" where
  "getRefStatsFor code st =
     (let c = trim code in
      if c = [] then new_entry
      else (case obj_get (refLog st) c of Own en \<Rightarrow> en | Inherited \<Rightarrow> new_entry | Absent \<Rightarrow> new_entry))"

text \<open>
  \<^verbatim>\<open>initRefFromUrl\<close>, given \<^verbatim>\<open>params.get("ref")\<close> (\<open>None\<close> for null). The
  \<^verbatim>\<open>try\<close>/\<^verbatim>\<open>catch\<close> around the body drops an exception of \<^verbatim>\<open>recordRefClick\<close>:
  the store stays as it was when the exception was thrown.
\<close>

definition initRefFromUrl :: "env \<Rightarrow> string option \<Rightarrow> store \<Rightarrow> store" where
  "initRefFromUrl E param st =
     (case param of
        None \<Rightarrow> st
      | Some code \<Rightarrow>
          if code = [] then st
          else
            (let st1 = setIncomingRef code st in
             case getCurrentUser E st1 of
               (None, st2) \<Rightarrow>
                 (case recordRefClick E code st2 of Inl x \<Rightarrow> st2 | Inr st3 \<Rightarrow> st3)
             | (Some me, st2) \<Rightarrow>
                 (case ensureUserRefCode E (users st2) (fst me) st2 of
                    (myCode, st3) \<Rightarrow>
                      if \<not> falsy myCode \<and> myCode = Some code then st3
                      else (case recordRefClick E code st3 of Inl x \<Rightarrow> st3 | Inr st4 \<Rightarrow> st4))))"

subsection \<open>register and login\<close>

text \<open>The failures, one per message of the source, and the two shapes of a result.\<close>

datatype error =
    InvalidEmail
  | WeakPassword
  | DuplicateEmail
  | UserNotFound
  | WrongPassword
  | NotAuthenticated

datatype result = Ok | Fail error

text \<open>The property names of the object literal returned.\<close>

fun result_fields :: "result \<Rightarrow> string list" where
  "result_fields Ok = [''ok'']"
| "result_fields (Fail e) = [''ok'', ''message'']"

definition default_profile :: "string \<Rightarrow> profile" where
  "default_profile e =
     [''email'' \<mapsto> VStr e, ''lastName'' \<mapsto> VStr [], ''firstName'' \<mapsto> VStr [],
      ''middleName'' \<mapsto> VStr [], ''telegram'' \<mapsto> VStr [], ''phone'' \<mapsto> VStr []]"

text \<open>
  \<^verbatim>\<open>register\<close>. The one suspension point, \<^verbatim>\<open>await sha256Hex(p)\<close>, is taken as
  atomic. An exception of \<^verbatim>\<open>recordRefReg\<close> leaves the function (the promise is
  rejected) before \<^verbatim>\<open>setUsers\<close>.
\<close>

definition register :: "env \<Rightarrow> string \<Rightarrow> string \<Rightarrow> store \<Rightarrow> (exn + result) \<times> store" where
  "register E mail password st =
     (let e = trim mail; p = password in
      if \<not> isValidEmail e then (Inr (Fail InvalidEmail), st)
      else if length p < 8 then (Inr (Fail WeakPassword), st)
      else
        (let us = users st in
         if list_ex (same_email e) us then (Inr (Fail DuplicateEmail), st)
         else
           (let ph = sha256Hex E p;
                rc = generateRefCode E;
                inc = getIncomingRef st;
                us' = us @ [\<lparr>email = e, passHash = ph, refCode = Some rc, referredBy = inc\<rparr>]
            in
              case (if inc \<noteq> []
                    then (case recordRefReg E inc e st of
                            Inl x \<Rightarrow> Inl x
                          | Inr st1 \<Rightarrow> Inr (clearIncomingRef st1))
                    else Inr st) of
                Inl x \<Rightarrow> (Inl x, st)
              | Inr st1 \<Rightarrow>
                  (let st2 = setUsers us' st1;
                       pr = profiles st2;
                       pr' = (if obj_get pr e = Absent then pr(e \<mapsto> default_profile e) else pr);
                       st3 = setProfile pr' st2;
                       st4 = setSessionEmail e st3
                   in (Inr Ok, st4)))))"

definition login :: "env \<Rightarrow> string \<Rightarrow> string \<Rightarrow> store \<Rightarrow> result \<times> store" where
  "login E mail password st =
     (let e = trim mail; p = password in
      if \<not> isValidEmail e then (Fail InvalidEmail, st)
      else if length p < 8 then (Fail WeakPassword, st)
      else
        (case List.find (same_email e) (users st) of
           None \<Rightarrow> (Fail UserNotFound, st)
         | Some u \<Rightarrow>
             if sha256Hex E p \<noteq> passHash u then (Fail WrongPassword, st)
             else
               (let st1 = setSessionEmail (email u) st
                in (Ok, snd (ensureUserRefCode E (users st1) (email u) st1)))))"

subsection \<open>Profiles\<close>


text \<open>
  What \<^verbatim>\<open>getMyProfile\<close> returns: null without a session, the stored record, the
  record \<^verbatim>\<open>{ email }\<close> when there is none, or the inherited member the key names.
\<close>

datatype profile_view = NoSession | Record profile | PrototypeMember string

definition getMyProfile :: "store \<Rightarrow> profile_view" where
  "getMyProfile st =
     (let e = getSessionEmail st in
      if e = [] then NoSession
      else
        (case obj_get (profiles st) e of
           Own r \<Rightarrow> Record r
         | Inherited \<Rightarrow> PrototypeMember e
         | Absent \<Rightarrow> Record [''email'' \<mapsto> VStr e]))"

section \<open>Reading the raw storage\<close>

text \<open>
  \<^verbatim>\<open>localStorage\<close> holds text. The reads parse it with \<^verbatim>\<open>JSON.parse\<close>, modelled here
  by a lexer and a shift-reduce parser for the JSON grammar (ECMA-404). The parse tree keeps
  a number and a string as the literal stands in the text (escape sequences are checked,
  not decoded): what the claims need is whether the text parses and the shape of the value.
\<close>

datatype json =
    JNull
  | JBool bool
  | JNumber string
  | JString string
  | JArray "json list"
  | JObject "(string \<times> json) list"

datatype token =
    TLBrace | TRBrace | TLBracket | TRBracket | TColon | TComma
  | TString string | TNumber string | TTrue | TFalse | TNull

definition json_ws :: "char \<Rightarrow> bool" where
  "json_ws c = (c \<in> set [CHR 0x20, CHR 0x09, CHR 0x0A, CHR 0x0D])"

definition is_digit :: "char \<Rightarrow> bool" where
  "is_digit c = (c \<in> set ''0123456789'')"

definition is_hex :: "char \<Rightarrow> bool" where
  "is_hex c = (c \<in> set ''0123456789abcdefABCDEF'')"

text \<open>
  The body of a string literal, after the opening quote: up to the closing quote, with
  no control character, and a backslash only before one of \<^verbatim>\<open>" \ / b f n r t\<close> or
  \<^verbatim>\<open>u\<close> and four hexadecimal digits. The result is the body and the text after the
  closing quote.
\<close>

fun lex_string :: "string \<Rightarrow> (string \<times> string) option" where
  "lex_string [] = None"
| "lex_string [c] = (if c = CHR 0x22 then Some ([], []) else None)"
| "lex_string (c # d # cs) =
     (if c = CHR 0x22 then Some ([], d # cs)
      else if c = CHR 0x5C then
        (if d \<in> set [CHR 0x22, CHR 0x5C, CHR ''/'', CHR ''b'', CHR ''f'', CHR ''n'', CHR ''r'', CHR ''t'']
         then map_option (\<lambda>(b, r). (c # d # b, r)) (lex_string cs)
         else if d = CHR ''u'' \<and> 4 \<le> length cs \<and> list_all is_hex (take 4 cs)
         then map_option (\<lambda>(b, r). (c # d # b, r)) (lex_string cs)
         else None)
      else if (of_char c :: nat) < 32 then None
      else map_option (\<lambda>(b, r). (c # b, r)) (lex_string (d # cs)))"

text \<open>
  A number literal: \<^verbatim>\<open>-? (0 | [1-9][0-9]*) (. [0-9]+)? ([eE] [+-]? [0-9]+)?\<close>, the longest
  prefix of that form.
\<close>

definition lex_frac :: "string \<Rightarrow> (string \<times> string) option" where
  "lex_frac s =
     (case s of
        [] \<Rightarrow> Some ([], s)
      | c # cs \<Rightarrow>
          if c = CHR ''.''
          then (if takeWhile is_digit cs = [] then None
                else Some (c # takeWhile is_digit cs, dropWhile is_digit cs))
          else Some ([], s))"

definition lex_sign :: "string \<Rightarrow> string \<times> string" where
  "lex_sign s =
     (case s of
        [] \<Rightarrow> ([], s)
      | c # cs \<Rightarrow> if c = CHR ''+'' \<or> c = CHR ''-'' then ([c], cs) else ([], s))"

definition lex_exp :: "string \<Rightarrow> (string \<times> string) option" where
  "lex_exp s =
     (case s of
        [] \<Rightarrow> Some ([], s)
      | c # cs \<Rightarrow>
          if c = CHR ''e'' \<or> c = CHR ''E''
          then (case lex_sign cs of
                  (sg, r) \<Rightarrow>
                    if takeWhile is_digit r = [] then None
                    else Some (c # sg @ takeWhile is_digit r, dropWhile is_digit r))
          else Some ([], s))"

definition lex_int :: "string \<Rightarrow> (string \<times> string) option" where
  "lex_int s =
     (case s of
        [] \<Rightarrow> None
      | d # ds \<Rightarrow>
          if \<not> is_digit d then None
          else if d = CHR ''0'' then Some ([d], ds)
          else Some (d # takeWhile is_digit ds, dropWhile is_digit ds))"

definition lex_number :: "string \<Rightarrow> (string \<times> string) option" where
  "lex_number s =
     (case (case s of [] \<Rightarrow> ([], s) | c # cs \<Rightarrow> if c = CHR ''-'' then ([c], cs) else ([], s)) of
        (sg, s1) \<Rightarrow>
          (case lex_int s1 of
             None \<Rightarrow> None
           | Some (ip, s2) \<Rightarrow>
               (case lex_frac s2 of
                  None \<Rightarrow> None
                | Some (fp, s3) \<Rightarrow>
                    (case lex_exp s3 of
                       None \<Rightarrow> None
                     | Some (ep, s4) \<Rightarrow> Some (sg @ ip @ fp @ ep, s4)))))"

lemma lex_string_shorter: "lex_string s = Some (b, r) \<Longrightarrow> length r < length s"
proof (induction s arbitrary: b r rule: lex_string.induct)
  case 1
  then show ?case by simp
next
  case (2 c)
  then show ?case by (simp split: if_splits)
next
  case (3 c d cs)
  show ?case
  proof (cases "c = CHR 0x22")
    case True
    with "3.prems" show ?thesis by auto
  next
    case q: False
    show ?thesis
    proof (cases "c = CHR 0x5C")
      case True
      with q "3.prems" obtain b' where "lex_string cs = Some (b', r)"
        by (auto split: if_splits)
      moreover from True q "3.prems" have
        "d \<in> set [CHR 0x22, CHR 0x5C, CHR ''/'', CHR ''b'', CHR ''f'', CHR ''n'', CHR ''r'', CHR ''t'']
         \<or> (d \<notin> set [CHR 0x22, CHR 0x5C, CHR ''/'', CHR ''b'', CHR ''f'', CHR ''n'', CHR ''r'', CHR ''t'']
            \<and> d = CHR ''u'' \<and> 4 \<le> length cs \<and> list_all is_hex (take 4 cs))"
        by (auto split: if_splits)
      ultimately have "length r < length cs"
        using "3.IH"(1) [OF q True] "3.IH"(2) [OF q True] by blast
      then show ?thesis by simp
    next
      case False
      with q "3.prems" obtain b' where "\<not> (of_char c :: nat) < 32" "lex_string (d # cs) = Some (b', r)"
        by (auto split: if_splits)
      with "3.IH"(3) [OF q False] have "length r < length (d # cs)" by blast
      then show ?thesis by simp
    qed
  qed
qed

lemma lex_frac_shorter: "lex_frac s = Some (b, r) \<Longrightarrow> length r \<le> length s"
  by (auto simp: lex_frac_def split: list.splits if_splits intro: le_SucI length_dropWhile_le)

lemma lex_sign_shorter: "lex_sign s = (b, r) \<Longrightarrow> length r \<le> length s"
  by (auto simp: lex_sign_def split: list.splits if_splits)

lemma lex_exp_shorter: "lex_exp s = Some (b, r) \<Longrightarrow> length r \<le> length s"
  by (auto simp: lex_exp_def split: list.splits if_splits prod.splits
      dest!: lex_sign_shorter intro: le_SucI order_trans [OF length_dropWhile_le])

lemma lex_int_shorter: "lex_int s = Some (b, r) \<Longrightarrow> length r < length s"
  by (auto simp: lex_int_def split: list.splits if_splits intro: le_imp_less_Suc length_dropWhile_le)

lemma lex_number_shorter: "lex_number s = Some (b, r) \<Longrightarrow> length r < length s"
  by (auto simp: lex_number_def split: list.splits if_splits prod.splits option.splits
      dest!: lex_int_shorter lex_frac_shorter lex_exp_shorter)

fun strip_prefix :: "string \<Rightarrow> string \<Rightarrow> string option" where
  "strip_prefix [] s = Some s"
| "strip_prefix (p # ps) [] = None"
| "strip_prefix (p # ps) (c # cs) = (if p = c then strip_prefix ps cs else None)"

lemma strip_prefix_length: "strip_prefix p s = Some r \<Longrightarrow> length s = length p + length r"
  by (induction p s rule: strip_prefix.induct) (auto split: if_splits)

definition lex_literal :: "string \<Rightarrow> (token \<times> string) option" where
  "lex_literal s =
     (case strip_prefix ''true'' s of
        Some r \<Rightarrow> Some (TTrue, r)
      | None \<Rightarrow>
          (case strip_prefix ''false'' s of
             Some r \<Rightarrow> Some (TFalse, r)
           | None \<Rightarrow>
               (case strip_prefix ''null'' s of
                  Some r \<Rightarrow> Some (TNull, r)
                | None \<Rightarrow> None)))"

lemma lex_literal_shorter: "lex_literal s = Some (t, r) \<Longrightarrow> length r < length s"
  unfolding lex_literal_def
  by (auto split: option.splits dest!: strip_prefix_length)

definition lex_punct :: "char \<Rightarrow> token option" where
  "lex_punct c =
     (if c = CHR ''{'' then Some TLBrace
      else if c = CHR ''}'' then Some TRBrace
      else if c = CHR ''['' then Some TLBracket
      else if c = CHR '']'' then Some TRBracket
      else if c = CHR '':'' then Some TColon
      else if c = CHR '','' then Some TComma
      else None)"

text \<open>One token from the head of a text that does not start with white space.\<close>

definition next_token :: "string \<Rightarrow> (token \<times> string) option" where
  "next_token s =
     (case s of
        [] \<Rightarrow> None
      | c # cs \<Rightarrow>
          (case lex_punct c of
             Some t \<Rightarrow> Some (t, cs)
           | None \<Rightarrow>
               if c = CHR 0x22 then map_option (\<lambda>(b, r). (TString b, r)) (lex_string cs)
               else if c = CHR ''-'' \<or> is_digit c then map_option (\<lambda>(n, r). (TNumber n, r)) (lex_number s)
               else lex_literal s))"

lemma next_token_shorter: "next_token s = Some (t, r) \<Longrightarrow> length r < length s"
proof (cases s)
  case Nil
  assume "next_token s = Some (t, r)"
  with Nil show ?thesis by (simp add: next_token_def)
next
  case (Cons c cs)
  assume a: "next_token s = Some (t, r)"
  show ?thesis
  proof (cases "lex_punct c")
    case (Some p)
    with a Cons show ?thesis by (simp add: next_token_def)
  next
    case None
    consider (str) b where "lex_string cs = Some (b, r)"
      | (num) n where "lex_number s = Some (n, r)"
      | (lit) "lex_literal s = Some (t, r)"
      using a None unfolding Cons next_token_def
      by (auto split: if_splits)
    then show ?thesis
    proof cases
      case str
      then show ?thesis using lex_string_shorter [of cs] Cons by fastforce
    next
      case num
      then show ?thesis by (rule lex_number_shorter)
    next
      case lit
      then show ?thesis by (rule lex_literal_shorter)
    qed
  qed
qed

text \<open>The lexer: white space is skipped between tokens.\<close>

function lex :: "string \<Rightarrow> token list option" where
  "lex s =
     (case dropWhile json_ws s of
        [] \<Rightarrow> Some []
      | c # cs \<Rightarrow>
          (case next_token (c # cs) of
             None \<Rightarrow> None
           | Some (t, r) \<Rightarrow> map_option (Cons t) (lex r)))"
  by pat_completeness auto
termination
proof (relation "measure length")
  show "wf (measure length)" by simp
next
  fix s c cs x t r
  assume d: "dropWhile json_ws s = c # cs" and n: "next_token (c # cs) = Some x" and x: "(t, r) = x"
  from n x have "length r < length (c # cs)" using next_token_shorter [of "c # cs" t r] by simp
  also have "length (c # cs) \<le> length s" using length_dropWhile_le [of json_ws s] d by simp
  finally show "(r, s) \<in> measure length" by simp
qed

declare lex.simps [simp del]

text \<open>
  The parser: a stack of the containers that are open, each with what it holds so far (newest
  first), and what may come next.
\<close>

datatype frame =
    InArray "json list"
  | InObject "(string \<times> json) list"
  | InMember "(string \<times> json) list" string

datatype mode =
    WantValue
  | WantValueOrEnd
  | WantKeyOrEnd
  | WantKey
  | WantColon
  | WantCommaOrEnd
  | Finished json

fun complete :: "json \<Rightarrow> frame list \<Rightarrow> (mode \<times> frame list) option" where
  "complete v [] = Some (Finished v, [])"
| "complete v (InArray vs # fs) = Some (WantCommaOrEnd, InArray (v # vs) # fs)"
| "complete v (InMember ms k # fs) = Some (WantCommaOrEnd, InObject ((k, v) # ms) # fs)"
| "complete v (InObject ms # fs) = None"

fun value_start :: "token \<Rightarrow> frame list \<Rightarrow> (mode \<times> frame list) option" where
  "value_start TLBracket fs = Some (WantValueOrEnd, InArray [] # fs)"
| "value_start TLBrace fs = Some (WantKeyOrEnd, InObject [] # fs)"
| "value_start (TString s) fs = complete (JString s) fs"
| "value_start (TNumber n) fs = complete (JNumber n) fs"
| "value_start TTrue fs = complete (JBool True) fs"
| "value_start TFalse fs = complete (JBool False) fs"
| "value_start TNull fs = complete JNull fs"
| "value_start t fs = None"

fun close_array :: "frame list \<Rightarrow> (mode \<times> frame list) option" where
  "close_array (InArray vs # fs) = complete (JArray (rev vs)) fs"
| "close_array fs = None"

fun close_object :: "frame list \<Rightarrow> (mode \<times> frame list) option" where
  "close_object (InObject ms # fs) = complete (JObject (rev ms)) fs"
| "close_object fs = None"

fun open_member :: "string \<Rightarrow> frame list \<Rightarrow> (mode \<times> frame list) option" where
  "open_member k (InObject ms # fs) = Some (WantColon, InMember ms k # fs)"
| "open_member k fs = None"

fun after_value :: "token \<Rightarrow> frame list \<Rightarrow> (mode \<times> frame list) option" where
  "after_value TComma (InArray vs # fs) = Some (WantValue, InArray vs # fs)"
| "after_value TRBracket (InArray vs # fs) = close_array (InArray vs # fs)"
| "after_value TComma (InObject ms # fs) = Some (WantKey, InObject ms # fs)"
| "after_value TRBrace (InObject ms # fs) = close_object (InObject ms # fs)"
| "after_value t fs = None"

fun pstep :: "mode \<Rightarrow> frame list \<Rightarrow> token \<Rightarrow> (mode \<times> frame list) option" where
  "pstep WantValue fs t = value_start t fs"
| "pstep WantValueOrEnd fs t = (if t = TRBracket then close_array fs else value_start t fs)"
| "pstep WantKeyOrEnd fs t =
     (case t of TRBrace \<Rightarrow> close_object fs | TString k \<Rightarrow> open_member k fs | _ \<Rightarrow> None)"
| "pstep WantKey fs t = (case t of TString k \<Rightarrow> open_member k fs | _ \<Rightarrow> None)"
| "pstep WantColon fs t = (if t = TColon then Some (WantValue, fs) else None)"
| "pstep WantCommaOrEnd fs t = after_value t fs"
| "pstep (Finished v) fs t = None"

fun prun :: "mode \<Rightarrow> frame list \<Rightarrow> token list \<Rightarrow> json option" where
  "prun m fs [] = (case m of Finished v \<Rightarrow> Some v | _ \<Rightarrow> None)"
| "prun m fs (t # ts) =
     (case pstep m fs t of None \<Rightarrow> None | Some (m', fs') \<Rightarrow> prun m' fs' ts)"

text \<open>\<^verbatim>\<open>JSON.parse\<close>; \<open>None\<close> is the SyntaxError.\<close>

definition JSON_parse :: "string \<Rightarrow> json option" where
  "JSON_parse s = (case lex s of None \<Rightarrow> None | Some ts \<Rightarrow> prun WantValue [] ts)"

text \<open>\<^verbatim>\<open>try { return JSON.parse(s); } catch { return fallback; }\<close>\<close>

definition safeJsonParse :: "string \<Rightarrow> json \<Rightarrow> json" where
  "safeJsonParse s fallback = (case JSON_parse s of None \<Rightarrow> fallback | Some v \<Rightarrow> v)"

text \<open>
  \<^verbatim>\<open>localStorage.getItem(key) || dflt\<close>: the default stands in when the key is absent
  (null) and when the text stored is empty.
\<close>

type_synonym localStorage = "string \<rightharpoonup> string"

definition item_or :: "localStorage \<Rightarrow> string \<Rightarrow> string \<Rightarrow> string" where
  "item_or ls k dflt = (case ls k of None \<Rightarrow> dflt | Some s \<Rightarrow> if s = [] then dflt else s)"

definition getUsers :: "localStorage \<Rightarrow> json" where
  "getUsers ls = safeJsonParse (item_or ls USERS_KEY ''[]'') (JArray [])"

definition getProfile :: "localStorage \<Rightarrow> json" where
  "getProfile ls = safeJsonParse (item_or ls PROFILE_KEY ''{}'') (JObject [])"

definition getHistory :: "localStorage \<Rightarrow> json" where
  "getHistory ls = safeJsonParse (item_or ls HISTORY_KEY ''[]'') (JArray [])"

definition getRefLog :: "localStorage \<Rightarrow> json" where
  "getRefLog ls = safeJsonParse (item_or ls REF_LOG_KEY ''{}'') (JObject [])"

fun is_array :: "json \<Rightarrow> bool" where
  "is_array (JArray vs) = True"
| "is_array v = False"

fun is_object :: "json \<Rightarrow> bool" where
  "is_object (JObject ms) = True"
| "is_object v = False"

section \<open>Auxiliary notions for the proofs\<close>


text \<open>A syntactic criterion: every string of the language holds the character.\<close>

fun rx_needs :: "char \<Rightarrow> rx \<Rightarrow> bool" where
  "rx_needs a Never = True"
| "rx_needs a Empty = False"
| "rx_needs a (Class p) = (\<forall>c. p c \<longrightarrow> c = a)"
| "rx_needs a (Cat r s) = (rx_needs a r \<or> rx_needs a s)"
| "rx_needs a (Or r s) = (rx_needs a r \<and> rx_needs a s)"
| "rx_needs a (Rep r) = False"

text \<open>The record \<^verbatim>\<open>register\<close> pushes.\<close>

definition new_user :: "env \<Rightarrow> string \<Rightarrow> string \<Rightarrow> store \<Rightarrow> user" where
  "new_user E mail pw st =
     \<lparr>email = trim mail, passHash = sha256Hex E pw, refCode = Some (generateRefCode E),
      referredBy = getIncomingRef st\<rparr>"


text \<open>In a list: the first \<open>a\<close> is followed, somewhere, by a \<open>b\<close>.\<close>

definition precedes :: "'a \<Rightarrow> 'a \<Rightarrow> 'a list \<Rightarrow> bool" where
  "precedes a b xs = (b \<in> set (dropWhile (\<lambda>x. x \<noteq> a) xs))"

text \<open>
  Calls of \<^verbatim>\<open>recordRefClick\<close> for one code, one after the other, each at its own
  time and path (oldest first); an exception ends the sequence.
\<close>

fun record_clicks :: "(nat \<times> string) list \<Rightarrow> string \<Rightarrow> env \<Rightarrow> store \<Rightarrow> exn + store" where
  "record_clicks [] code E st = Inr st"
| "record_clicks (ev # evs) code E st =
     (case recordRefClick (E\<lparr>now := fst ev, pathname := snd ev\<rparr>) code st of
        Inl x \<Rightarrow> Inl x
      | Inr st' \<Rightarrow> record_clicks evs code E st')"

text \<open>The form of a code that \<^verbatim>\<open>generateRefCode\<close> makes.\<close>

definition is_refcode :: "string \<Rightarrow> bool" where
  "is_refcode c = (length c = 8 \<and> set c \<subseteq> set alphabet)"

text \<open>
  Every stored email, and the session's, passed \<^verbatim>\<open>isValidEmail\<close>: so it is in every
  store that \<^verbatim>\<open>register\<close> and \<^verbatim>\<open>login\<close> made from an empty one.
\<close>

definition valid_store :: "store \<Rightarrow> bool" where
  "valid_store st =
     ((\<forall>u\<in>set (users st). isValidEmail (email u))
      \<and> (case session st of None \<Rightarrow> True | Some e \<Rightarrow> isValidEmail e))"

text \<open>A key whose text gives no value: absent, empty, or not JSON.\<close>

definition unreadable :: "localStorage \<Rightarrow> string \<Rightarrow> bool" where
  "unreadable ls k = (case ls k of None \<Rightarrow> True | Some s \<Rightarrow> s = [] \<or> JSON_parse s = None)"

section \<open>Concrete platforms and stores for evaluation\<close>

text \<open>A browser without \<^verbatim>\<open>crypto.subtle\<close>; every random draw is index 0 (the letter A).\<close>

definition E0 :: env where
  "E0 = \<lparr>subtle = None, random = (\<lambda>i. 0), now = 0, pathname = ''/''\<rparr>"

text \<open>The store after \<^verbatim>\<open>register("a@b.com", "password1")\<close> on an empty one.\<close>

definition st_a :: store where
  "st_a =
     \<lparr>users = [\<lparr>email = ''a@b.com'', passHash = ''fallback_c8ad98f6'',
                 refCode = Some ''AAAAAAAA'', referredBy = []\<rparr>],
      session = Some ''a@b.com'',
      profiles = [''a@b.com'' \<mapsto> default_profile ''a@b.com''],
      refLog = Map.empty, incomingRef = None,
      journal = [SetItem USERS_KEY, SetItem PROFILE_KEY, SetItem SESSION_KEY]\<rparr>"

text \<open>The store after a first visit of a page with \<^verbatim>\<open>?ref=constructor\<close>.\<close>

definition st_staged :: store where
  "st_staged = empty_store\<lparr>incomingRef := Some ''constructor'', journal := [SetItem INCOMING_REF_KEY]\<rparr>"

text \<open>An account older than referral codes, before and after its login.\<close>

definition st_legacy :: store where
  "st_legacy =
     \<lparr>users = [\<lparr>email = ''Old@B.com'', passHash = ''fallback_c8ad98f6'',
                 refCode = None, referredBy = []\<rparr>],
      session = None, profiles = Map.empty, refLog = Map.empty, incomingRef = None,
      journal = []\<rparr>"

definition st_legacy_in :: store where
  "st_legacy_in =
     \<lparr>users = [\<lparr>email = ''Old@B.com'', passHash = ''fallback_c8ad98f6'',
                 refCode = Some ''AAAAAAAA'', referredBy = []\<rparr>],
      session = Some ''Old@B.com'', profiles = Map.empty, refLog = Map.empty, incomingRef = None,
      journal = [SetItem SESSION_KEY, SetItem USERS_KEY]\<rparr>"

text \<open>A referral code is staged; then \<^verbatim>\<open>register("a@b.com", "password1")\<close>.\<close>

definition st_ref :: store where
  "st_ref = empty_store\<lparr>incomingRef := Some ''ABCD2345''\<rparr>"

definition st_ref_a :: store where
  "st_ref_a =
     \<lparr>users = [\<lparr>email = ''a@b.com'', passHash = ''fallback_c8ad98f6'',
                 refCode = Some ''AAAAAAAA'', referredBy = ''ABCD2345''\<rparr>],
      session = Some ''a@b.com'',
      profiles = [''a@b.com'' \<mapsto> default_profile ''a@b.com''],
      refLog = [''ABCD2345'' \<mapsto> \<lparr>clicks = [], regs = [(0, ''a@b.com'')]\<rparr>],
      incomingRef = None,
      journal = [SetItem REF_LOG_KEY, RemoveItem INCOMING_REF_KEY,
                 SetItem USERS_KEY, SetItem PROFILE_KEY, SetItem SESSION_KEY]\<rparr>"

text \<open>501 clicks, at the times 0 .. 500.\<close>

definition clicks_501 :: "(nat \<times> string) list" where
  "clicks_501 = map (\<lambda>t. (t, ''/index.html'')) [0 ..< 501]"

text \<open>A session whose profile record is missing.\<close>

definition st_no_profile :: store where
  "st_no_profile = st_a\<lparr>profiles := Map.empty\<rparr>"

text \<open>Raw storage: valid JSON of another shape, and text that is not JSON.\<close>

definition ls_null :: localStorage where
  "ls_null = [USERS_KEY \<mapsto> ''null'', PROFILE_KEY \<mapsto> ''[]'']"

definition ls_broken :: localStorage where
  "ls_broken = [USERS_KEY \<mapsto> ''{oops'', PROFILE_KEY \<mapsto> ''[1,'', REF_LOG_KEY \<mapsto> ''7'']"

text \<open>A string literal of JSON: the text between double quotes.\<close>

definition quoted :: "string \<Rightarrow> string" where
  "quoted s = CHR 0x22 # s @ [CHR 0x22]"

text \<open>The Users table as \<^verbatim>\<open>setUsers\<close> writes it after the first registration.\<close>

definition users_text_a :: string where
  "users_text_a =
     ''[{'' @ quoted ''email'' @ '':'' @ quoted ''a@b.com'' @ '','' @
              quoted ''passHash'' @ '':'' @ quoted ''fallback_c8ad98f6'' @ '','' @
              quoted ''refCode'' @ '':'' @ quoted ''AAAAAAAA'' @ '','' @
              quoted ''referredBy'' @ '':'' @ quoted [] @ ''}]''"

section \<open>Strings and the email expression\<close>

lemma js_ws_iff: "js_ws c \<longleftrightarrow> (of_char c :: nat) \<in> {9, 10, 11, 12, 13, 32, 160}"
  unfolding js_ws_def by (cases c) auto

lemma toLowerChar_ws [simp]: "js_ws (toLowerChar c) = js_ws c"
  unfolding js_ws_iff toLowerChar_def Let_def by (auto simp: of_char_of)

lemma char_eq_iff_nat: "c = d \<longleftrightarrow> (of_char c :: nat) = of_char d"
  by (metis char_of_char)

lemma toLowerChar_at [simp]: "toLowerChar c = CHR ''@'' \<longleftrightarrow> c = CHR ''@''"
  unfolding char_eq_iff_nat [of _ "CHR ''@''"] toLowerChar_def Let_def by (auto simp: of_char_of)

lemma toLowerChar_dot [simp]: "toLowerChar c = CHR ''.'' \<longleftrightarrow> c = CHR ''.''"
  unfolding char_eq_iff_nat [of _ "CHR ''.''"] toLowerChar_def Let_def by (auto simp: of_char_of)



lemma dropWhile_id: "xs = [] \<or> \<not> P (hd xs) \<Longrightarrow> dropWhile P xs = xs"
  by (cases xs) auto

lemma dropWhile_hd: "dropWhile P xs = [] \<or> \<not> P (hd (dropWhile P xs))"
  using hd_dropWhile [of P xs] by blast

lemma last_dropWhile: "dropWhile P xs \<noteq> [] \<Longrightarrow> last (dropWhile P xs) = last xs"
  by (induction xs) (auto split: if_splits)

lemma trim_ends: "trim s = [] \<or> (\<not> js_ws (hd (trim s)) \<and> \<not> js_ws (last (trim s)))"
proof (cases "trim s = []")
  case True
  then show ?thesis by simp
next
  case False
  let ?a = "dropWhile js_ws s"
  let ?b = "dropWhile js_ws (rev ?a)"
  have t: "trim s = rev ?b" by (simp add: trim_def)
  from False t have b: "?b \<noteq> []" by simp
  have a: "?a \<noteq> []"
  proof
    assume "?a = []"
    then have "?b = []" by (simp del: dropWhile_eq_Nil_conv)
    with b show False by blast
  qed
  have "last (trim s) = hd ?b" using b by (simp add: t last_rev)
  moreover have "\<not> js_ws (hd ?b)" using b hd_dropWhile [of js_ws "rev ?a"] by blast
  moreover have "hd (trim s) = last ?b" using b by (simp add: t hd_rev)
  moreover have "last ?b = last (rev ?a)" using b by (rule last_dropWhile)
  moreover have "last (rev ?a) = hd ?a" using a by (simp add: last_rev)
  moreover have "\<not> js_ws (hd ?a)" using a hd_dropWhile [of js_ws s] by blast
  ultimately show ?thesis by simp
qed

lemma trim_idem [simp]: "trim (trim s) = trim s"
proof -
  let ?t = "trim s"
  have 1: "dropWhile js_ws ?t = ?t"
    using trim_ends [of s] by (intro dropWhile_id) auto
  have "rev ?t = [] \<or> \<not> js_ws (hd (rev ?t))"
    using trim_ends [of s] by (auto simp: hd_rev)
  then have 2: "dropWhile js_ws (rev ?t) = rev ?t" by (rule dropWhile_id)
  show ?thesis
    by (subst (1) trim_def) (simp add: 1 2)
qed

lemma set_trim: "set (trim s) \<subseteq> set s"
  by (auto simp: trim_def dest!: set_dropWhileD)






lemma isValidEmail_trim [simp]: "isValidEmail (trim s) = isValidEmail s"
  by (simp add: isValidEmail_def)

lemma rx_needs_not_empty: "rx_needs a r \<Longrightarrow> \<not> accepts_empty r"
  by (induction r) auto

lemma rx_needs_after: "rx_needs a r \<Longrightarrow> c \<noteq> a \<Longrightarrow> rx_needs a (after c r)"
  by (induction r) (auto dest: rx_needs_not_empty)

lemma rx_needs_test: "rx_needs a r \<Longrightarrow> rx_test r s \<Longrightarrow> a \<in> set s"
proof (induction s arbitrary: r)
  case Nil
  then show ?case by (auto dest: rx_needs_not_empty)
next
  case (Cons c cs)
  show ?case
  proof (cases "c = a")
    case True
    then show ?thesis by simp
  next
    case False
    with Cons.prems have "rx_needs a (after c r)" by (simp add: rx_needs_after)
    with Cons.IH Cons.prems show ?thesis by simp
  qed
qed

lemma isValidEmail_has_at: "isValidEmail e \<Longrightarrow> CHR ''@'' \<in> set e"
proof -
  assume "isValidEmail e"
  then have "rx_test email_rx (trim e)" by (simp add: isValidEmail_def)
  moreover have "rx_needs CHR ''@'' email_rx"
    by (simp add: email_rx_def rx_plus_def rx_two_or_more_def)
  ultimately have "CHR ''@'' \<in> set (trim e)" by (rule rx_needs_test [rotated])
  then show ?thesis using set_trim by blast
qed

lemma isValidEmail_not_inherited: "isValidEmail e \<Longrightarrow> e \<notin> set object_prototype_keys"
  by (auto simp: object_prototype_keys_def dest!: isValidEmail_has_at)

lemma isValidEmail_nonempty: "isValidEmail e \<Longrightarrow> e \<noteq> []"
  by (auto dest: isValidEmail_has_at)

section \<open>Password hashing\<close>

lemma poly_sum_Cons:
  "(\<Sum>i<Suc (length cs). of_char ((c # cs) ! i) * 31 ^ (length cs - i))
     = (of_char c * 31 ^ length cs + (\<Sum>i<length cs. of_char (cs ! i) * 31 ^ (length cs - 1 - i)) :: nat)"
  by (subst sum.lessThan_Suc_shift) simp

lemma mod_mult_add_left:
  "((a mod m) * b + s) mod m = (a * b + s) mod (m::nat)"
  by (metis mod_add_left_eq mod_mult_left_eq)

text \<open>The loop computes the polynomial in 31 of the code units, modulo \<open>2^32\<close>.\<close>

lemma fallback_loop_closed:
  "unat (fallback_loop h cs) =
     (unat h * 31 ^ length cs + (\<Sum>i<length cs. of_char (cs ! i) * 31 ^ (length cs - 1 - i))) mod 2 ^ 32"
proof (induction cs arbitrary: h)
  case Nil
  show ?case using unsigned_less [of h, where ?'a = nat] by simp
next
  case (Cons c cs)
  let ?k = "of_char c :: nat"
  let ?S = "\<Sum>i<length cs. of_char (cs ! i) * 31 ^ (length cs - 1 - i) :: nat"
  have step: "unat (h * 31 + of_nat ?k) = (unat h * 31 + ?k) mod 2 ^ 32"
    by (simp add: unat_word_ariths unat_of_nat mod_simps)
  have "unat (fallback_loop h (c # cs)) = (unat (h * 31 + of_nat ?k) * 31 ^ length cs + ?S) mod 2 ^ 32"
    using Cons.IH [of "h * 31 + of_nat ?k"] by simp
  also have "\<dots> = ((unat h * 31 + ?k) * 31 ^ length cs + ?S) mod 2 ^ 32"
    unfolding step by (rule mod_mult_add_left)
  also have "\<dots> = (unat h * 31 ^ length (c # cs) + (?k * 31 ^ length cs + ?S)) mod 2 ^ 32"
    by (simp add: algebra_simps)
  finally show ?case
    using poly_sum_Cons [of c cs] by simp
qed

text \<open>
  C2. The claim: without a strong digest primitive the hashing operation refuses or raises a
  capability error and returns no weak hash. The code returns one: here the fallback value
  for a password, in a browser without \<^verbatim>\<open>crypto.subtle\<close>.
\<close>

theorem sha256Hex_returns_weak_hash:
  "subtle E0 = None \<and> sha256Hex E0 ''password1'' = ''fallback_c8ad98f6''"
  by (simp add: sha256Hex_def E0_def hexDigit_def)

text \<open>
  C2, as the code has it: when \<^verbatim>\<open>crypto.subtle\<close> is missing, \<^verbatim>\<open>sha256Hex\<close> returns
  (it neither refuses nor raises) the text \<^verbatim>\<open>fallback_\<close> followed by the hexadecimal form of
  the 32-bit checksum \<open>\<Sum> c\<^sub>i * 31^(n-1-i) mod 2^32\<close> of the code units \<open>c\<^sub>0 .. c\<^sub>n\<^sub>-\<^sub>1\<close> of
  the password.
\<close>

theorem sha256Hex_fallback:
  assumes "subtle E = None"
  shows "sha256Hex E pw =
           ''fallback_'' @
           toString16 ((\<Sum>i<length pw. of_char (pw ! i) * 31 ^ (length pw - 1 - i)) mod 2 ^ 32)"
  using assms fallback_loop_closed [of 0 pw] by (simp add: sha256Hex_def)

theorem sha256Hex_fallback_witness:
  "subtle E0 = None \<and> sha256Hex E0 ''Aa'' = ''fallback_840''"
proof -
  have h: "subtle E0 = None" by (simp add: E0_def)
  show ?thesis using h sha256Hex_fallback [OF h, of "''Aa''"]
    by (simp add: hexDigit_def lessThan_Suc)
qed

text \<open>The checksum is not collision resistant: two passwords with one fallback hash.\<close>

lemma sha256Hex_fallback_collision: "sha256Hex E0 ''Aa'' = sha256Hex E0 ''BB''"
  by (simp add: sha256Hex_def E0_def hexDigit_def)

section \<open>register and login\<close>

lemma findIndex_Some:
  "findIndex P xs = Some i \<Longrightarrow> i < length xs \<and> P (xs ! i) \<and> (\<forall>j<i. \<not> P (xs ! j))"
proof (induction xs arbitrary: i)
  case Nil
  then show ?case by simp
next
  case (Cons x xs)
  show ?case
  proof (cases "P x")
    case True
    with Cons.prems show ?thesis by simp
  next
    case False
    with Cons.prems obtain k where k: "findIndex P xs = Some k" "i = Suc k" by auto
    from Cons.IH [OF k(1)] False k(2) show ?thesis
      by (auto simp: nth_Cons split: nat.splits)
  qed
qed

lemma findIndex_None: "findIndex P xs = None \<longleftrightarrow> \<not> list_ex P xs"
  by (induction xs) auto

lemma find_findIndex: "List.find P xs = map_option (\<lambda>i. xs ! i) (findIndex P xs)"
  by (induction xs) (auto simp: option.map_comp comp_def)

lemma find_append_fresh: "\<not> list_ex P xs \<Longrightarrow> P x \<Longrightarrow> List.find P (xs @ [x]) = Some x"
  by (induction xs) auto

lemma getIncomingRef_trim [simp]: "trim (getIncomingRef st) = getIncomingRef st"
  by (simp add: getIncomingRef_def)

lemma obj_get_empty_key [simp]: "obj_get m [] \<noteq> Inherited"
  by (simp add: obj_get_def object_prototype_keys_def split: option.splits)

text \<open>
  A successful registration: what it needs and what it stores. The staged referral must not
  name an inherited member of the ledger object (the empty code never does).
\<close>

lemma register_success:
  assumes v: "isValidEmail mail" and l: "8 \<le> length pw"
    and f: "\<not> list_ex (same_email (trim mail)) (users st)"
    and r: "obj_get (refLog st) (getIncomingRef st) \<noteq> Inherited"
  shows "fst (register E mail pw st) = Inr Ok"
    and "users (snd (register E mail pw st)) = users st @ [new_user E mail pw st]"
    and "session (snd (register E mail pw st)) = Some (trim mail)"
    and "incomingRef (snd (register E mail pw st)) = (if getIncomingRef st = [] then incomingRef st else None)"
  using assms
  by (auto simp: register_def Let_def recordRefReg_def new_user_def setUsers_def setProfile_def
      setSessionEmail_def setRefLog_def clearIncomingRef_def wrote_def split: member.splits)

text \<open>The five ways \<^verbatim>\<open>register\<close> ends.\<close>

lemma register_cases:
  "register E mail pw st = (r, st') \<Longrightarrow>
     (r = Inr (Fail InvalidEmail) \<and> \<not> isValidEmail mail \<and> st' = st) \<or>
     (r = Inr (Fail WeakPassword) \<and> isValidEmail mail \<and> length pw < 8 \<and> st' = st) \<or>
     (r = Inr (Fail DuplicateEmail) \<and> isValidEmail mail \<and> 8 \<le> length pw
        \<and> list_ex (same_email (trim mail)) (users st) \<and> st' = st) \<or>
     (r = Inl TypeError \<and> isValidEmail mail \<and> 8 \<le> length pw
        \<and> \<not> list_ex (same_email (trim mail)) (users st)
        \<and> obj_get (refLog st) (getIncomingRef st) = Inherited \<and> st' = st) \<or>
     (r = Inr Ok \<and> isValidEmail mail \<and> 8 \<le> length pw
        \<and> \<not> list_ex (same_email (trim mail)) (users st)
        \<and> obj_get (refLog st) (getIncomingRef st) \<noteq> Inherited)"
  by (auto simp: register_def Let_def recordRefReg_def split: if_splits sum.splits member.splits exn.splits)

lemma login_Ok_iff:
  "fst (login E mail pw st) = Ok \<longleftrightarrow>
     isValidEmail mail \<and> 8 \<le> length pw \<and>
     (\<exists>u. List.find (same_email (trim mail)) (users st) = Some u \<and> passHash u = sha256Hex E pw)"
  by (auto simp: login_def Let_def split: option.splits)

text \<open>
  Registration, then login with the same credentials: both succeed, in every store whose
  staged referral is no inherited member.
\<close>

lemma register_then_login:
  assumes v: "isValidEmail mail" and l: "8 \<le> length pw"
    and f: "\<not> list_ex (same_email (trim mail)) (users st)"
    and r: "obj_get (refLog st) (getIncomingRef st) \<noteq> Inherited"
  shows "fst (register E mail pw st) = Inr Ok \<and> fst (login E mail pw (snd (register E mail pw st))) = Ok"
proof -
  have "same_email (trim mail) (new_user E mail pw st)"
    by (simp add: same_email_def new_user_def)
  with f have "List.find (same_email (trim mail)) (users st @ [new_user E mail pw st]) = Some (new_user E mail pw st)"
    by (rule find_append_fresh)
  moreover have "passHash (new_user E mail pw st) = sha256Hex E pw"
    by (simp add: new_user_def)
  ultimately show ?thesis
    using register_success [OF v l f r, of E] v l by (simp add: login_Ok_iff)
qed



subsection \<open>The scenario of the specification: a@b.com, then A@B.com\<close>

lemma generateRefCode_E0: "generateRefCode E0 = ''AAAAAAAA''"
  by (simp add: generateRefCode_def E0_def alphabet_def upt_rec)

lemma sha256Hex_E0_password1: "sha256Hex E0 ''password1'' = ''fallback_c8ad98f6''"
  by (simp add: sha256Hex_def E0_def hexDigit_def)

lemma valid_a_b: "isValidEmail ''a@b.com''"
  by code_simp


lemma trim_a_b: "trim ''a@b.com'' = ''a@b.com''"
  by (simp add: trim_def js_ws_def)



lemma lower_a_b: "toLowerCase ''a@b.com'' = ''a@b.com''"
  by code_simp

lemma trim_Nil [simp]: "trim [] = []"
  by (simp add: trim_def)



text \<open>The same at the first registration of the specification's scenario.\<close>

lemma register_then_login_a_b:
  "fst (register E0 ''a@b.com'' ''password1'' empty_store) = Inr Ok
   \<and> fst (login E0 ''a@b.com'' ''password1'' (snd (register E0 ''a@b.com'' ''password1'' empty_store))) = Ok"
proof -
  have f: "\<not> list_ex (same_email (trim ''a@b.com'')) (users empty_store)"
    by (simp add: empty_store_def)
  have r: "obj_get (refLog empty_store) (getIncomingRef empty_store) \<noteq> Inherited"
    by (simp add: empty_store_def getIncomingRef_def)
  have l: "8 \<le> length ''password1''" by simp
  from register_then_login [OF valid_a_b l f r] show ?thesis .
qed



subsection \<open>A staged referral that names an inherited member\<close>

lemma trim_constructor: "trim ''constructor'' = ''constructor''"
  by (simp add: trim_def js_ws_def)

lemma initRef_constructor: "initRefFromUrl E0 (Some ''constructor'') empty_store = st_staged"
  by (simp add: initRefFromUrl_def setIncomingRef_def wrote_def getCurrentUser_def getSessionEmail_def
      empty_store_def recordRefClick_def trim_constructor obj_get_def object_prototype_keys_def
      st_staged_def Let_def)

text \<open>
  C1. The claim: for a valid email, a password of 8 characters or more and no user with that
  email up to letter case, \<^verbatim>\<open>register\<close> succeeds, and so does a login with the same
  credentials right after. \<open>register_then_login\<close> above proves it for every store whose
  staged referral names no inherited member of an object. The code breaks it in the others: a
  page visited with \<^verbatim>\<open>?ref=constructor\<close> stages that code (the catch in
  \<^verbatim>\<open>initRefFromUrl\<close> drops the TypeError of the click), and the next \<^verbatim>\<open>register\<close>
  throws a TypeError out of \<^verbatim>\<open>recordRefReg\<close>, before the user is stored.
\<close>

theorem register_throws_on_inherited_referral:
  "initRefFromUrl E0 (Some ''constructor'') empty_store = st_staged
   \<and> register E0 ''a@b.com'' ''password1'' st_staged = (Inl TypeError, st_staged)
   \<and> users st_staged = []"
  by (simp add: initRef_constructor)
     (simp add: register_def Let_def valid_a_b trim_a_b st_staged_def empty_store_def
      getIncomingRef_def trim_constructor recordRefReg_def obj_get_def object_prototype_keys_def)

section \<open>login\<close>

lemma same_email_first: "same_email e u \<Longrightarrow> same_email (email u) = same_email e"
  by (auto simp: same_email_def fun_eq_iff)

lemma generateRefCode_length [simp]: "length (generateRefCode E) = 8"
  by (simp add: generateRefCode_def)

lemma generateRefCode_truthy [simp]: "\<not> falsy (Some (generateRefCode E))"
  by (simp add: falsy_def generateRefCode_def)

lemma ensureUserRefCode_at:
  assumes "findIndex (same_email e) us = Some i"
  shows "ensureUserRefCode E us e st =
           (if falsy (refCode (us ! i))
            then (Some (generateRefCode E), setUsers (us[i := (us ! i)\<lparr>refCode := Some (generateRefCode E)\<rparr>]) st)
            else (refCode (us ! i), st))"
  using assms by (simp add: ensureUserRefCode_def Let_def)

text \<open>The five ways \<^verbatim>\<open>login\<close> ends.\<close>

lemma login_cases:
  "login E mail pw st = (r, st') \<Longrightarrow>
     (r = Fail InvalidEmail \<and> \<not> isValidEmail mail \<and> st' = st) \<or>
     (r = Fail WeakPassword \<and> isValidEmail mail \<and> length pw < 8 \<and> st' = st) \<or>
     (r = Fail UserNotFound \<and> isValidEmail mail \<and> 8 \<le> length pw
        \<and> List.find (same_email (trim mail)) (users st) = None \<and> st' = st) \<or>
     (\<exists>u. r = Fail WrongPassword \<and> isValidEmail mail \<and> 8 \<le> length pw
        \<and> List.find (same_email (trim mail)) (users st) = Some u
        \<and> sha256Hex E pw \<noteq> passHash u \<and> st' = st) \<or>
     (\<exists>u. r = Ok \<and> isValidEmail mail \<and> 8 \<le> length pw
        \<and> List.find (same_email (trim mail)) (users st) = Some u
        \<and> sha256Hex E pw = passHash u
        \<and> st' = snd (ensureUserRefCode E (users st) (email u) (setSessionEmail (email u) st)))"
  by (auto simp: login_def Let_def setSessionEmail_def wrote_def split: if_splits option.splits)

lemma login_Ok_state:
  assumes i: "findIndex (same_email (trim mail)) (users st) = Some i"
    and st': "st' = snd (ensureUserRefCode E (users st) (email (users st ! i)) (setSessionEmail (email (users st ! i)) st))"
  shows "session st' = Some (email (users st ! i))"
    and "users st' = (users st)[i := (users st ! i)\<lparr>refCode :=
           (if falsy (refCode (users st ! i)) then Some (generateRefCode E) else refCode (users st ! i))\<rparr>]"
    and "\<not> falsy (refCode (users st' ! i))"
proof -
  let ?u = "users st ! i"
  from findIndex_Some [OF i] have il: "i < length (users st)" and m: "same_email (trim mail) ?u" by auto
  from i have i': "findIndex (same_email (email ?u)) (users st) = Some i"
    by (simp add: same_email_first [OF m])
  note e = ensureUserRefCode_at [OF i', of E "setSessionEmail (email ?u) st"]
  show "session st' = Some (email ?u)"
    unfolding st' e by (simp add: setSessionEmail_def setUsers_def wrote_def)
  show u: "users st' = (users st)[i := ?u\<lparr>refCode :=
           (if falsy (refCode ?u) then Some (generateRefCode E) else refCode ?u)\<rparr>]"
    unfolding st' e by (simp add: setSessionEmail_def setUsers_def wrote_def)
  show "\<not> falsy (refCode (users st' ! i))"
    using il by (simp add: u)
qed

text \<open>
  C7, as the code has it. \<^verbatim>\<open>login\<close> succeeds exactly when the email is valid, the password
  has 8 characters or more, and the first user with that email up to letter case has the
  password's hash. It then returns the flag \<^verbatim>\<open>{ ok: true }\<close> alone (not the user), the
  session holds that user's stored email, and that user has a referral code: a fresh one if it
  had none, its own otherwise; no other user changes. When it fails the result is
  InvalidEmail, WeakPassword, UserNotFound or WrongPassword, and nothing is stored.
\<close>

theorem login_outcome:
  assumes "login E mail pw st = (r, st')"
  shows "(r = Ok \<longleftrightarrow> isValidEmail mail \<and> 8 \<le> length pw \<and>
           (\<exists>u. List.find (same_email (trim mail)) (users st) = Some u \<and> passHash u = sha256Hex E pw))
       \<and> (r = Ok \<longrightarrow> result_fields r = [''ok''] \<and>
           (\<exists>i. findIndex (same_email (trim mail)) (users st) = Some i
              \<and> session st' = Some (email (users st ! i))
              \<and> users st' = (users st)[i := (users st ! i)\<lparr>refCode :=
                   (if falsy (refCode (users st ! i)) then Some (generateRefCode E)
                    else refCode (users st ! i))\<rparr>]
              \<and> \<not> falsy (refCode (users st' ! i))))
       \<and> (r \<noteq> Ok \<longrightarrow> r \<in> {Fail InvalidEmail, Fail WeakPassword, Fail UserNotFound, Fail WrongPassword}
              \<and> st' = st)"
proof -
  have 1: "r = Ok \<longleftrightarrow> isValidEmail mail \<and> 8 \<le> length pw \<and>
           (\<exists>u. List.find (same_email (trim mail)) (users st) = Some u \<and> passHash u = sha256Hex E pw)"
    using login_Ok_iff [of E mail pw st] assms by simp
  have 3: "r \<noteq> Ok \<longrightarrow> r \<in> {Fail InvalidEmail, Fail WeakPassword, Fail UserNotFound, Fail WrongPassword}
              \<and> st' = st"
    using login_cases [OF assms] by auto
  have 2: "r = Ok \<longrightarrow> result_fields r = [''ok''] \<and>
           (\<exists>i. findIndex (same_email (trim mail)) (users st) = Some i
              \<and> session st' = Some (email (users st ! i))
              \<and> users st' = (users st)[i := (users st ! i)\<lparr>refCode :=
                   (if falsy (refCode (users st ! i)) then Some (generateRefCode E)
                    else refCode (users st ! i))\<rparr>]
              \<and> \<not> falsy (refCode (users st' ! i)))"
  proof
    assume ok: "r = Ok"
    with login_cases [OF assms] obtain u where
      u: "List.find (same_email (trim mail)) (users st) = Some u"
      and s: "st' = snd (ensureUserRefCode E (users st) (email u) (setSessionEmail (email u) st))"
      by auto
    from u obtain i where i: "findIndex (same_email (trim mail)) (users st) = Some i"
      and ui: "u = users st ! i"
      by (auto simp: find_findIndex)
    from login_Ok_state [OF i s [unfolded ui], of ] ok i
    show "result_fields r = [''ok''] \<and>
           (\<exists>i. findIndex (same_email (trim mail)) (users st) = Some i
              \<and> session st' = Some (email (users st ! i))
              \<and> users st' = (users st)[i := (users st ! i)\<lparr>refCode :=
                   (if falsy (refCode (users st ! i)) then Some (generateRefCode E)
                    else refCode (users st ! i))\<rparr>]
              \<and> \<not> falsy (refCode (users st' ! i)))"
      by simp
  qed
  from 1 2 3 show ?thesis by blast
qed

lemma valid_old_b: "isValidEmail ''old@b.com''"
  by code_simp

lemma trim_old_b: "trim ''old@b.com'' = ''old@b.com''"
  by (simp add: trim_def js_ws_def)

lemma lower_old_b: "toLowerCase ''old@b.com'' = ''old@b.com''"
  by code_simp

lemma lower_Old_B: "toLowerCase ''Old@B.com'' = ''old@b.com''"
  by code_simp

lemma sha256Hex_E0_wrongpass: "sha256Hex E0 ''wrongpass'' = ''fallback_df7e333e''"
  by (simp add: sha256Hex_def E0_def hexDigit_def)

lemma login_legacy: "login E0 ''old@b.com'' ''password1'' st_legacy = (Ok, st_legacy_in)"
  by (simp add: login_def Let_def valid_old_b trim_old_b st_legacy_def same_email_def
      lower_old_b lower_Old_B sha256Hex_E0_password1 setSessionEmail_def wrote_def
      ensureUserRefCode_def falsy_def generateRefCode_E0 setUsers_def st_legacy_in_def)

lemma login_legacy_wrong: "login E0 ''old@b.com'' ''wrongpass'' st_legacy = (Fail WrongPassword, st_legacy)"
  by (simp add: login_def Let_def valid_old_b trim_old_b st_legacy_def same_email_def
      lower_old_b lower_Old_B sha256Hex_E0_wrongpass)

text \<open>C7 at an account without a referral code: a login that succeeds, one that fails.\<close>

theorem login_outcome_witness:
  "login E0 ''old@b.com'' ''password1'' st_legacy = (Ok, st_legacy_in)
   \<and> result_fields Ok = [''ok'']
   \<and> session st_legacy_in = Some ''Old@B.com''
   \<and> refCode (users st_legacy ! 0) = None
   \<and> refCode (users st_legacy_in ! 0) = Some ''AAAAAAAA''
   \<and> login E0 ''old@b.com'' ''wrongpass'' st_legacy = (Fail WrongPassword, st_legacy)"
  using login_outcome [OF login_legacy] login_outcome [OF login_legacy_wrong]
    login_legacy login_legacy_wrong
  by (simp add: st_legacy_def st_legacy_in_def)

text \<open>
  C7. The claim: a successful login returns the matched User record, not merely a success
  flag. The object returned has the one property \<^verbatim>\<open>ok\<close>.
\<close>

theorem login_returns_flag_only:
  "fst (login E0 ''a@b.com'' ''password1'' st_a) = Ok \<and> result_fields Ok = [''ok'']"
  by (simp add: login_Ok_iff valid_a_b trim_a_b st_a_def same_email_def lower_a_b sha256Hex_E0_password1)

section \<open>The steps of register\<close>

text \<open>The writes of a successful registration, in their order.\<close>

lemma register_Ok_journal:
  assumes v: "isValidEmail mail" and l: "8 \<le> length pw"
    and f: "\<not> list_ex (same_email (trim mail)) (users st)"
    and r: "obj_get (refLog st) (getIncomingRef st) \<noteq> Inherited"
  shows "journal (snd (register E mail pw st)) =
           journal st
           @ (if getIncomingRef st = [] then [] else [SetItem REF_LOG_KEY, RemoveItem INCOMING_REF_KEY])
           @ [SetItem USERS_KEY, SetItem PROFILE_KEY, SetItem SESSION_KEY]"
  using assms
  by (auto simp: register_def Let_def recordRefReg_def setUsers_def setProfile_def
      setSessionEmail_def setRefLog_def clearIncomingRef_def wrote_def split: member.splits)

lemma register_Ok_ledger:
  assumes v: "isValidEmail mail" and l: "8 \<le> length pw"
    and f: "\<not> list_ex (same_email (trim mail)) (users st)"
    and r: "obj_get (refLog st) (getIncomingRef st) \<noteq> Inherited"
    and s: "getIncomingRef st \<noteq> []"
  shows "regs (getRefStatsFor (getIncomingRef st) (snd (register E mail pw st))) =
           take 500 ((now E, trim mail) # regs (getRefStatsFor (getIncomingRef st) st))"
    and "clicks (getRefStatsFor (getIncomingRef st) (snd (register E mail pw st))) =
           clicks (getRefStatsFor (getIncomingRef st) st)"
  using assms
  by (auto simp: register_def Let_def recordRefReg_def setUsers_def setProfile_def getRefStatsFor_def
      setSessionEmail_def setRefLog_def clearIncomingRef_def wrote_def obj_get_def new_entry_def
      split: member.splits option.splits if_splits)

lemma register_Ok_profile:
  assumes v: "isValidEmail mail" and l: "8 \<le> length pw"
    and f: "\<not> list_ex (same_email (trim mail)) (users st)"
    and r: "obj_get (refLog st) (getIncomingRef st) \<noteq> Inherited"
  shows "profiles (snd (register E mail pw st)) =
           (case profiles st (trim mail) of
              None \<Rightarrow> (profiles st)(trim mail \<mapsto> default_profile (trim mail))
            | Some p \<Rightarrow> profiles st)"
proof -
  from v have "trim mail \<notin> set object_prototype_keys"
    using isValidEmail_not_inherited [of "trim mail"] by simp
  with assms show ?thesis
    by (auto simp: register_def Let_def recordRefReg_def setUsers_def setProfile_def
      setSessionEmail_def setRefLog_def clearIncomingRef_def wrote_def obj_get_def
      split: member.splits option.splits)
qed

text \<open>
  C3, as the code has it. \<^verbatim>\<open>register\<close> validates and builds the new User; then, when a
  referral is staged, it writes the attribution to the ledger and clears the staged code; then
  it stores the Users table with the new User; then the Profile; then the Session. When it
  returns a failure, the failure is InvalidEmail, WeakPassword or DuplicateEmail and no
  table is written: the store is the one it started from. What an exception leaves behind
  is not part of the statement.
\<close>

theorem register_steps:
  assumes "register E mail pw st = (r, st')"
  shows "(\<forall>e. r = Inr (Fail e) \<longrightarrow>
            e \<in> {InvalidEmail, WeakPassword, DuplicateEmail} \<and> st' = st)
       \<and> (r = Inr Ok \<longrightarrow>
            journal st' =
              journal st
              @ (if getIncomingRef st = [] then [] else [SetItem REF_LOG_KEY, RemoveItem INCOMING_REF_KEY])
              @ [SetItem USERS_KEY, SetItem PROFILE_KEY, SetItem SESSION_KEY]
          \<and> users st' = users st @ [new_user E mail pw st]
          \<and> (getIncomingRef st \<noteq> [] \<longrightarrow>
                incomingRef st' = None
              \<and> regs (getRefStatsFor (getIncomingRef st) st') =
                  take 500 ((now E, trim mail) # regs (getRefStatsFor (getIncomingRef st) st)))
          \<and> profiles st' =
              (case profiles st (trim mail) of
                 None \<Rightarrow> (profiles st)(trim mail \<mapsto> default_profile (trim mail))
               | Some p \<Rightarrow> profiles st)
          \<and> session st' = Some (trim mail))"
proof (cases "r = Inr Ok")
  case False
  with register_cases [OF assms] show ?thesis by auto
next
  case True
  with register_cases [OF assms]
  have v: "isValidEmail mail" and l: "8 \<le> length pw"
    and f: "\<not> list_ex (same_email (trim mail)) (users st)"
    and i: "obj_get (refLog st) (getIncomingRef st) \<noteq> Inherited"
    by auto
  have s: "st' = snd (register E mail pw st)" using assms by simp
  show ?thesis
    using True register_success [OF v l f i, of E] register_Ok_journal [OF v l f i, of E]
      register_Ok_ledger(1) [OF v l f i, of E] register_Ok_profile [OF v l f i, of E]
    by (simp add: s)
qed

lemma trim_ABCD2345: "trim ''ABCD2345'' = ''ABCD2345''"
  by (simp add: trim_def js_ws_def)

lemma register_staged: "register E0 ''a@b.com'' ''password1'' st_ref = (Inr Ok, st_ref_a)"
  by (simp add: register_def Let_def valid_a_b trim_a_b st_ref_def empty_store_def getIncomingRef_def
      trim_ABCD2345 recordRefReg_def obj_get_def object_prototype_keys_def new_entry_def
      sha256Hex_E0_password1 generateRefCode_E0 st_ref_a_def clearIncomingRef_def setRefLog_def
      setUsers_def setProfile_def setSessionEmail_def wrote_def E0_def [THEN arg_cong, of now])

lemma register_invalid: "register E0 ''nobody'' ''password1'' st_ref = (Inr (Fail InvalidEmail), st_ref)"
proof -
  have "\<not> isValidEmail ''nobody''" by code_simp
  then show ?thesis by (simp add: register_def Let_def)
qed

text \<open>
  C3. The claim: \<^verbatim>\<open>register\<close> creates the User, then attributes and clears the staged
  referral, then initialises the Profile, then sets the Session. In the stored tables the
  ledger is written and the staged code removed first, the Users table after them.
\<close>

theorem register_writes_ledger_before_users:
  "register E0 ''a@b.com'' ''password1'' st_ref = (Inr Ok, st_ref_a)
   \<and> journal st_ref = []
   \<and> journal st_ref_a = [SetItem REF_LOG_KEY, RemoveItem INCOMING_REF_KEY,
                          SetItem USERS_KEY, SetItem PROFILE_KEY, SetItem SESSION_KEY]
   \<and> \<not> precedes (SetItem USERS_KEY) (SetItem REF_LOG_KEY) (journal st_ref_a)"
  by (simp add: register_staged)
     (simp add: st_ref_def empty_store_def st_ref_a_def precedes_def USERS_KEY_def REF_LOG_KEY_def
      PROFILE_KEY_def SESSION_KEY_def INCOMING_REF_KEY_def)

text \<open>C3 with a staged referral, and at an email that is refused.\<close>

theorem register_steps_witness:
  "register E0 ''a@b.com'' ''password1'' st_ref = (Inr Ok, st_ref_a)
   \<and> getIncomingRef st_ref = ''ABCD2345''
   \<and> journal st_ref_a = journal st_ref @ [SetItem REF_LOG_KEY, RemoveItem INCOMING_REF_KEY,
                          SetItem USERS_KEY, SetItem PROFILE_KEY, SetItem SESSION_KEY]
   \<and> incomingRef st_ref_a = None
   \<and> regs (getRefStatsFor ''ABCD2345'' st_ref_a) = [(0, ''a@b.com'')]
   \<and> session st_ref_a = Some ''a@b.com''
   \<and> register E0 ''nobody'' ''password1'' st_ref = (Inr (Fail InvalidEmail), st_ref)"
proof -
  have g: "getIncomingRef st_ref = ''ABCD2345''"
    by (simp add: getIncomingRef_def st_ref_def trim_ABCD2345)
  have n: "now E0 = 0" by (simp add: E0_def)
  have r: "regs (getRefStatsFor ''ABCD2345'' st_ref) = []"
    by (simp add: getRefStatsFor_def trim_ABCD2345 st_ref_def empty_store_def obj_get_def
        object_prototype_keys_def new_entry_def)
  from register_steps [OF register_staged] register_steps [OF register_invalid]
    register_staged register_invalid g
  show ?thesis by (simp add: n r trim_a_b)
qed

section \<open>Clicks\<close>

lemma recordRefClick_blank: "trim code = [] \<Longrightarrow> recordRefClick E code st = Inr st"
  by (simp add: recordRefClick_def)

lemma record_clicks_blank: "trim code = [] \<Longrightarrow> record_clicks evs code E st = Inr st"
  by (induction evs) (simp_all add: recordRefClick_blank)

lemma recordRefClick_ok:
  assumes "trim code \<noteq> []" and "obj_get (refLog st) (trim code) \<noteq> Inherited"
  shows "\<exists>st'. recordRefClick E code st = Inr st'
           \<and> clicks (getRefStatsFor code st') = take 500 ((now E, pathname E) # clicks (getRefStatsFor code st))
           \<and> regs (getRefStatsFor code st') = regs (getRefStatsFor code st)
           \<and> obj_get (refLog st') (trim code) \<noteq> Inherited"
  using assms
  by (auto simp: recordRefClick_def getRefStatsFor_def Let_def setRefLog_def wrote_def obj_get_def
      new_entry_def split: member.splits option.splits if_splits)

lemma take_append_take: "take n (xs @ take n ys) = take n (xs @ ys)"
  by (simp add: min_def)

lemma record_clicks_ok:
  assumes "trim code \<noteq> []" and "obj_get (refLog st) (trim code) \<noteq> Inherited"
  shows "\<exists>st'. record_clicks evs code E st = Inr st'
           \<and> clicks (getRefStatsFor code st') =
               (if evs = [] then clicks (getRefStatsFor code st)
                else take 500 (rev evs @ clicks (getRefStatsFor code st)))
           \<and> regs (getRefStatsFor code st') = regs (getRefStatsFor code st)"
  using assms
proof (induction evs arbitrary: st)
  case Nil
  show ?case by simp
next
  case (Cons ev evs)
  let ?E = "E\<lparr>now := fst ev, pathname := snd ev\<rparr>"
  from recordRefClick_ok [OF Cons.prems, of ?E]
  obtain st1 where 1: "recordRefClick ?E code st = Inr st1"
    and c1: "clicks (getRefStatsFor code st1) = take 500 (ev # clicks (getRefStatsFor code st))"
    and r1: "regs (getRefStatsFor code st1) = regs (getRefStatsFor code st)"
    and o1: "obj_get (refLog st1) (trim code) \<noteq> Inherited"
    by auto
  from Cons.IH [OF Cons.prems(1) o1]
  obtain st' where 2: "record_clicks evs code E st1 = Inr st'"
    and c2: "clicks (getRefStatsFor code st') =
               (if evs = [] then clicks (getRefStatsFor code st1)
                else take 500 (rev evs @ clicks (getRefStatsFor code st1)))"
    and r2: "regs (getRefStatsFor code st') = regs (getRefStatsFor code st1)"
    by auto
  have "clicks (getRefStatsFor code st') = take 500 (rev (ev # evs) @ clicks (getRefStatsFor code st))"
  proof (cases "evs = []")
    case True
    with c2 c1 show ?thesis by simp
  next
    case False
    with c2 c1 have "clicks (getRefStatsFor code st') =
        take 500 (rev evs @ take 500 (ev # clicks (getRefStatsFor code st)))" by simp
    also have "\<dots> = take 500 (rev evs @ ev # clicks (getRefStatsFor code st))"
      by (rule take_append_take)
    finally show ?thesis by simp
  qed
  with 1 2 r1 r2 show ?case by simp
qed

text \<open>
  C5, as the code has it. For a code that is not blank (something is left of it after
  \<^verbatim>\<open>trim\<close>) and that names no inherited member of the ledger object, each
  \<^verbatim>\<open>recordRefClick\<close> puts the click at the head of the code's list and keeps the first
  500; after 501 clicks the list holds exactly the last 500 of them, newest first, and not
  the first click. What happens for a code that names an inherited member is left open here.
\<close>

theorem record_501_clicks:
  assumes "trim code \<noteq> []" and "obj_get (refLog st) (trim code) \<noteq> Inherited"
    and "length evs = 501"
  shows "(\<exists>st1. recordRefClick E code st = Inr st1
            \<and> clicks (getRefStatsFor code st1) =
                take 500 ((now E, pathname E) # clicks (getRefStatsFor code st)))
       \<and> (\<exists>st'. record_clicks evs code E st = Inr st'
            \<and> clicks (getRefStatsFor code st') = rev (tl evs)
            \<and> length (clicks (getRefStatsFor code st')) = 500
            \<and> (distinct evs \<longrightarrow> hd evs \<notin> set (clicks (getRefStatsFor code st'))))"
proof -
  from assms(3) obtain ev rest where evs: "evs = ev # rest" and len: "length rest = 500"
    by (cases evs) auto
  from record_clicks_ok [OF assms(1,2), of evs E]
  obtain st' where 1: "record_clicks evs code E st = Inr st'"
    and c: "clicks (getRefStatsFor code st') = take 500 (rev evs @ clicks (getRefStatsFor code st))"
    by (auto simp: evs)
  have "take 500 (rev evs @ clicks (getRefStatsFor code st)) = rev rest"
    using len by (simp add: evs)
  with c have "clicks (getRefStatsFor code st') = rev (tl evs)" by (simp add: evs)
  with 1 len have "\<exists>st'. record_clicks evs code E st = Inr st'
            \<and> clicks (getRefStatsFor code st') = rev (tl evs)
            \<and> length (clicks (getRefStatsFor code st')) = 500
            \<and> (distinct evs \<longrightarrow> hd evs \<notin> set (clicks (getRefStatsFor code st')))"
    by (auto simp: evs)
  moreover from recordRefClick_ok [OF assms(1,2), of E]
  have "\<exists>st1. recordRefClick E code st = Inr st1
            \<and> clicks (getRefStatsFor code st1) =
                take 500 ((now E, pathname E) # clicks (getRefStatsFor code st))"
    by blast
  ultimately show ?thesis by blast
qed

lemma trim_space: "trim '' '' = []"
  by (simp add: trim_def js_ws_def)

text \<open>
  C5. The claim: for every non-empty code, 501 clicks leave 500 entries in its list. A code
  of white space only is not empty, and \<^verbatim>\<open>recordRefClick\<close> records nothing for it.
\<close>

theorem record_501_clicks_blank_code:
  "'' '' \<noteq> [] \<and> length clicks_501 = 501
   \<and> record_clicks clicks_501 '' '' E0 empty_store = Inr empty_store
   \<and> clicks (getRefStatsFor '' '' empty_store) = []"
  by (simp add: record_clicks_blank trim_space clicks_501_def getRefStatsFor_def new_entry_def)

text \<open>C5 at the code \<^verbatim>\<open>ABCD2345\<close> and an empty ledger.\<close>

theorem record_501_clicks_witness:
  "trim ''ABCD2345'' \<noteq> [] \<and> obj_get (refLog empty_store) (trim ''ABCD2345'') \<noteq> Inherited
   \<and> length clicks_501 = 501 \<and> distinct clicks_501
   \<and> (\<exists>st1. recordRefClick E0 ''ABCD2345'' empty_store = Inr st1
          \<and> clicks (getRefStatsFor ''ABCD2345'' st1) = [(0, ''/'')])
   \<and> (\<exists>st'. record_clicks clicks_501 ''ABCD2345'' E0 empty_store = Inr st'
          \<and> clicks (getRefStatsFor ''ABCD2345'' st') = rev (tl clicks_501)
          \<and> length (clicks (getRefStatsFor ''ABCD2345'' st')) = 500
          \<and> hd clicks_501 \<notin> set (clicks (getRefStatsFor ''ABCD2345'' st')))"
proof -
  have a: "trim ''ABCD2345'' \<noteq> []" by (simp add: trim_ABCD2345)
  have b: "obj_get (refLog empty_store) (trim ''ABCD2345'') \<noteq> Inherited"
    by (simp add: trim_ABCD2345 empty_store_def obj_get_def object_prototype_keys_def)
  have c: "length clicks_501 = 501" by (simp add: clicks_501_def)
  have d: "distinct clicks_501" by (simp add: clicks_501_def distinct_map inj_on_def)
  have e: "clicks (getRefStatsFor ''ABCD2345'' empty_store) = []"
    by (simp add: getRefStatsFor_def trim_ABCD2345 empty_store_def obj_get_def
        object_prototype_keys_def new_entry_def)
  have f: "now E0 = 0" "pathname E0 = ''/''" by (simp_all add: E0_def)
  from record_501_clicks [OF a b c, of E0] a b c d show ?thesis by (simp add: e f)
qed

section \<open>The visitor who follows their own referral link\<close>

lemma alphabet_length: "length alphabet = 32"
  by (simp add: alphabet_def)

lemma generateRefCode_is_refcode: "is_refcode (generateRefCode E)"
proof -
  have "unat (random E i) < 32" for i
    using unsigned_less [of "random E i", where ?'a = nat] by simp
  then have "alphabet ! unat (random E i) \<in> set alphabet" for i
    by (simp add: alphabet_length)
  then show ?thesis by (auto simp: is_refcode_def generateRefCode_def)
qed

lemma alphabet_no_ws: "c \<in> set alphabet \<Longrightarrow> \<not> js_ws c"
  by (auto simp: alphabet_def js_ws_def)

lemma trim_no_ws: "\<forall>c\<in>set s. \<not> js_ws c \<Longrightarrow> trim s = s"
proof -
  assume a: "\<forall>c\<in>set s. \<not> js_ws c"
  then have "dropWhile js_ws s = s" by (cases s) auto
  moreover from a have "dropWhile js_ws (rev s) = rev s" by (cases "rev s") (auto simp: rev_eq_Cons_iff)
  ultimately show ?thesis by (simp add: trim_def)
qed

lemma trim_refcode: "is_refcode c \<Longrightarrow> trim c = c"
  by (rule trim_no_ws) (auto simp: is_refcode_def dest: alphabet_no_ws)

lemma truthy_code: "\<not> falsy c \<Longrightarrow> \<exists>s. c = Some s \<and> s \<noteq> []"
  by (cases c) (auto simp: falsy_def)

text \<open>What \<^verbatim>\<open>getCurrentUser\<close> does when it finds the user of the session.\<close>

lemma getCurrentUser_Some:
  assumes "getCurrentUser E st = (Some (m, c), st2)"
  shows "\<exists>i. getSessionEmail st \<noteq> []
           \<and> findIndex (same_email (getSessionEmail st)) (users st) = Some i
           \<and> m = email (users st ! i)
           \<and> users st2 = (users st)[i := (users st ! i)\<lparr>refCode := Some c\<rparr>]
           \<and> c \<noteq> []
           \<and> session st2 = session st \<and> refLog st2 = refLog st \<and> incomingRef st2 = incomingRef st
           \<and> profiles st2 = profiles st
           \<and> journal st2 = journal st @ (if users st2 = users st then [] else [SetItem USERS_KEY])"
proof -
  from assms have s: "getSessionEmail st \<noteq> []"
    by (auto simp: getCurrentUser_def Let_def split: if_splits)
  with assms obtain i where i: "findIndex (same_email (getSessionEmail st)) (users st) = Some i"
    by (auto simp: getCurrentUser_def Let_def split: option.splits)
  let ?u = "users st ! i"
  show ?thesis
  proof (cases "falsy (refCode ?u)")
    case True
    with assms s i have "m = email ?u" "c = generateRefCode E"
      "st2 = setUsers ((users st)[i := ?u\<lparr>refCode := Some c\<rparr>]) st"
      by (auto simp: getCurrentUser_def Let_def)
    moreover have "generateRefCode E \<noteq> []" by (simp add: generateRefCode_def)
    moreover have "(users st)[i := ?u\<lparr>refCode := Some (generateRefCode E)\<rparr>] \<noteq> users st"
    proof
      assume e: "(users st)[i := ?u\<lparr>refCode := Some (generateRefCode E)\<rparr>] = users st"
      from findIndex_Some [OF i] have "i < length (users st)" by simp
      with e have "?u\<lparr>refCode := Some (generateRefCode E)\<rparr> = ?u"
        by (metis nth_list_update_eq)
      then have "refCode ?u = Some (generateRefCode E)"
        by (metis user.select_convs(3) user.surjective user.update_convs(3))
      with True show False by (simp add: falsy_def generateRefCode_def)
    qed
    ultimately show ?thesis using s i by (auto simp: setUsers_def wrote_def)
  next
    case False
    then obtain k where k: "refCode ?u = Some k" "k \<noteq> []" by (auto dest: truthy_code)
    with assms s i False have "m = email ?u" "c = k" "st2 = st"
      by (auto simp: getCurrentUser_def Let_def)
    moreover have "?u\<lparr>refCode := Some k\<rparr> = ?u" using k(1) by simp
    then have "(users st)[i := ?u\<lparr>refCode := Some k\<rparr>] = users st" by simp
    ultimately show ?thesis using s i k by simp
  qed
qed

lemma findIndex_cong_map:
  "map f xs = map f ys \<Longrightarrow> findIndex (\<lambda>x. P (f x)) xs = findIndex (\<lambda>x. P (f x)) ys"
proof (induction xs arbitrary: ys)
  case Nil
  then show ?case by simp
next
  case (Cons x xs)
  then obtain y ys' where "ys = y # ys'" "f x = f y" "map f xs = map f ys'" by (cases ys) auto
  with Cons.IH [of ys'] show ?case by simp
qed

lemma findIndex_same_email_update:
  assumes "i < length us"
  shows "findIndex (same_email e) (us[i := (us ! i)\<lparr>refCode := rc\<rparr>]) = findIndex (same_email e) us"
proof -
  have "map email (us[i := (us ! i)\<lparr>refCode := rc\<rparr>]) = map email us"
    using assms by (simp add: map_update list_update_same_conv)
  from findIndex_cong_map [OF this, of "\<lambda>m. toLowerCase m = toLowerCase e"]
  show ?thesis by (simp add: same_email_def [abs_def])
qed

text \<open>
  When the \<^verbatim>\<open>ref\<close> parameter is, character for character, the referral code of the
  logged-in viewer (the one \<^verbatim>\<open>getCurrentUser\<close> returns), \<^verbatim>\<open>initRefFromUrl\<close>
  leaves the ledger as it was and writes nothing under its key, and the code is staged: the
  slot holds the code trimmed, which is the code itself for every code of the form
  \<^verbatim>\<open>generateRefCode\<close> makes.
\<close>

lemma initRefFromUrl_own_code:
  assumes "fst (getCurrentUser E st) = Some (m, code)"
  shows "refLog (initRefFromUrl E (Some code) st) = refLog st
       \<and> SetItem REF_LOG_KEY \<notin> set (drop (length (journal st)) (journal (initRefFromUrl E (Some code) st)))
       \<and> incomingRef (initRefFromUrl E (Some code) st) = Some (trim code)
       \<and> (is_refcode code \<longrightarrow> getIncomingRef (initRefFromUrl E (Some code) st) = code)"
proof -
  let ?st1 = "setIncomingRef code st"
  obtain me st2 where g: "getCurrentUser E ?st1 = (me, st2)" by (cases "getCurrentUser E ?st1")
  have "fst (getCurrentUser E ?st1) = fst (getCurrentUser E st)"
    by (simp add: getCurrentUser_def Let_def getSessionEmail_def setIncomingRef_def wrote_def
        split: option.splits)
  with g assms have g': "getCurrentUser E ?st1 = (Some (m, code), st2)" by simp
  from getCurrentUser_Some [OF g']
  obtain i where i: "findIndex (same_email (getSessionEmail ?st1)) (users ?st1) = Some i"
    and m: "m = email (users ?st1 ! i)"
    and u2: "users st2 = (users ?st1)[i := (users ?st1 ! i)\<lparr>refCode := Some code\<rparr>]"
    and c: "code \<noteq> []"
    and f: "refLog st2 = refLog ?st1" "incomingRef st2 = incomingRef ?st1"
    and j: "journal st2 = journal ?st1 @ (if users st2 = users ?st1 then [] else [SetItem USERS_KEY])"
    by auto
  from findIndex_Some [OF i] have il: "i < length (users ?st1)"
    and sm: "same_email (getSessionEmail ?st1) (users ?st1 ! i)" by auto
  have "findIndex (same_email m) (users st2) = Some i"
    unfolding u2 using i il by (simp add: findIndex_same_email_update m same_email_first [OF sm])
  moreover have "refCode (users st2 ! i) = Some code" using il by (simp add: u2)
  ultimately have e: "ensureUserRefCode E (users st2) m st2 = (Some code, st2)"
    using c by (simp add: ensureUserRefCode_def falsy_def)
  have r: "initRefFromUrl E (Some code) st = st2"
    using c g' e by (simp add: initRefFromUrl_def Let_def falsy_def)
  have k: "REF_LOG_KEY \<noteq> INCOMING_REF_KEY" "REF_LOG_KEY \<noteq> USERS_KEY"
    by (simp_all add: REF_LOG_KEY_def INCOMING_REF_KEY_def USERS_KEY_def)
  have 1: "refLog st2 = refLog st" using f by (simp add: setIncomingRef_def wrote_def)
  have 2: "SetItem REF_LOG_KEY \<notin> set (drop (length (journal st)) (journal st2))"
    using j k by (simp add: setIncomingRef_def wrote_def)
  have 3: "incomingRef st2 = Some (trim code)" using f by (simp add: setIncomingRef_def wrote_def)
  have 4: "is_refcode code \<longrightarrow> getIncomingRef st2 = code"
    using 3 by (simp add: getIncomingRef_def trim_refcode)
  from 1 2 3 4 show ?thesis by (simp add: r)
qed

lemma currentUser_st_a: "fst (getCurrentUser E0 st_a) = Some (''a@b.com'', ''AAAAAAAA'')"
  by (simp add: getCurrentUser_def Let_def getSessionEmail_def st_a_def same_email_def falsy_def)

lemma is_refcode_AAAAAAAA: "is_refcode ''AAAAAAAA''"
  by (simp add: is_refcode_def alphabet_def)

text \<open>The same at the user a@b.com, whose code is AAAAAAAA.\<close>

lemma initRefFromUrl_own_code_at_a_b:
  "fst (getCurrentUser E0 st_a) = Some (''a@b.com'', ''AAAAAAAA'')
   \<and> refLog (initRefFromUrl E0 (Some ''AAAAAAAA'') st_a) = refLog st_a
   \<and> clicks (getRefStatsFor ''AAAAAAAA'' (initRefFromUrl E0 (Some ''AAAAAAAA'') st_a)) = []
   \<and> is_refcode ''AAAAAAAA''
   \<and> getIncomingRef (initRefFromUrl E0 (Some ''AAAAAAAA'') st_a) = ''AAAAAAAA''"
proof -
  have "clicks (getRefStatsFor ''AAAAAAAA'' st) = []" if "refLog st = refLog st_a" for st
    using that by (simp add: getRefStatsFor_def st_a_def obj_get_def new_entry_def Let_def)
  with initRefFromUrl_own_code [OF currentUser_st_a] currentUser_st_a is_refcode_AAAAAAAA
  show ?thesis by simp
qed

lemma trim_padded_AAAAAAAA: "trim '' AAAAAAAA'' = ''AAAAAAAA''"
  by (simp add: trim_def js_ws_def)

lemma trim_AAAAAAAA: "trim ''AAAAAAAA'' = ''AAAAAAAA''"
  by (simp add: trim_def js_ws_def)

text \<open>
  C6. The claim: when the code that comes in with the \<^verbatim>\<open>ref\<close> parameter is the
  logged-in viewer's own referral code, no click is recorded for it and the code is staged.
  The code that is staged, and under which a click is recorded, is the parameter trimmed
  (\<^verbatim>\<open>setIncomingRef\<close>, \<^verbatim>\<open>recordRefClick\<close>); the guard of \<^verbatim>\<open>initRefFromUrl\<close>
  compares the parameter as it came. For \<^verbatim>\<open>?ref=%20AAAAAAAA\<close> and the viewer whose code
  is AAAAAAAA, the viewer's own code is staged and a click is recorded for it.
\<close>

theorem initRefFromUrl_padded_own_code:
  "fst (getCurrentUser E0 st_a) = Some (''a@b.com'', ''AAAAAAAA'')
   \<and> clicks (getRefStatsFor ''AAAAAAAA'' st_a) = []
   \<and> getIncomingRef (initRefFromUrl E0 (Some '' AAAAAAAA'') st_a) = ''AAAAAAAA''
   \<and> clicks (getRefStatsFor ''AAAAAAAA'' (initRefFromUrl E0 (Some '' AAAAAAAA'') st_a)) = [(0, ''/'')]"
  by (simp add: currentUser_st_a)
     (simp add: initRefFromUrl_def Let_def setIncomingRef_def wrote_def getCurrentUser_def
      getSessionEmail_def st_a_def same_email_def falsy_def ensureUserRefCode_def
      recordRefClick_def getRefStatsFor_def getIncomingRef_def trim_padded_AAAAAAAA trim_AAAAAAAA
      obj_get_def object_prototype_keys_def new_entry_def setRefLog_def E0_def)

section \<open>Profiles\<close>

text \<open>
  The emails \<^verbatim>\<open>register\<close> and \<^verbatim>\<open>login\<close> store, in the users and in the session,
  passed \<^verbatim>\<open>isValidEmail\<close>: an active session's email is such an email.
\<close>

lemma valid_store_empty: "valid_store empty_store"
  by (simp add: valid_store_def empty_store_def)

lemma register_valid_store:
  assumes "valid_store st"
  shows "valid_store (snd (register E mail pw st))"
proof -
  obtain r st' where r: "register E mail pw st = (r, st')" by (cases "register E mail pw st")
  show ?thesis
  proof (cases "r = Inr Ok")
    case False
    with register_cases [OF r] assms r show ?thesis by auto
  next
    case True
    with register_cases [OF r]
    have v: "isValidEmail mail" and l: "8 \<le> length pw"
      and f: "\<not> list_ex (same_email (trim mail)) (users st)"
      and i: "obj_get (refLog st) (getIncomingRef st) \<noteq> Inherited"
      by auto
    from register_success(2,3) [OF v l f i, of E] assms v show ?thesis
      by (auto simp: valid_store_def new_user_def)
  qed
qed

lemma find_Some_mem: "List.find P xs = Some x \<Longrightarrow> x \<in> set xs"
  by (auto simp: find_Some_iff)

lemma login_valid_store:
  assumes "valid_store st"
  shows "valid_store (snd (login E mail pw st))"
proof -
  obtain r st' where r: "login E mail pw st = (r, st')" by (cases "login E mail pw st")
  show ?thesis
  proof (cases "r = Ok")
    case False
    with login_cases [OF r] assms r show ?thesis by auto
  next
    case True
    with login_cases [OF r] obtain u where
      u: "List.find (same_email (trim mail)) (users st) = Some u"
      and s: "st' = snd (ensureUserRefCode E (users st) (email u) (setSessionEmail (email u) st))"
      by auto
    from u obtain i where i: "findIndex (same_email (trim mail)) (users st) = Some i"
      and ui: "u = users st ! i"
      by (auto simp: find_findIndex)
    from findIndex_Some [OF i] have il: "i < length (users st)" by simp
    note L = login_Ok_state(1,2) [OF i s [unfolded ui], of ]
    have "isValidEmail (email (users st ! i))"
      using assms il by (simp add: valid_store_def)
    moreover have "map email (users st') = map email (users st)"
      using il by (simp add: L(2) map_update list_update_same_conv)
    then have "email ` set (users st') = email ` set (users st)"
      by (metis set_map)
    then have "\<forall>u\<in>set (users st'). isValidEmail (email u)"
      using assms unfolding valid_store_def by (metis (no_types, lifting) image_iff)
    ultimately show ?thesis using r by (simp add: valid_store_def L(1))
  qed
qed




text \<open>
  C9, as the code has it. With an active session \<^verbatim>\<open>getMyProfile\<close> returns a record and
  never fails: the stored one, or, when there is none for the email, the record
  \<^verbatim>\<open>{ email }\<close> with that one field and none of the optional fields.
\<close>

theorem getMyProfile_absent:
  assumes "session st = Some e" and "isValidEmail e"
  shows "getMyProfile st =
           Record (case profiles st e of Some r \<Rightarrow> r | None \<Rightarrow> [''email'' \<mapsto> VStr e])"
proof -
  from assms(2) have "e \<noteq> []" by (rule isValidEmail_nonempty)
  moreover from assms(2) have "e \<notin> set object_prototype_keys" by (rule isValidEmail_not_inherited)
  ultimately show ?thesis using assms(1)
    by (auto simp: getMyProfile_def Let_def getSessionEmail_def obj_get_def split: option.splits)
qed

text \<open>
  C9. The claim: when no profile is stored for the email, the record returned holds the email
  and all of lastName, firstName, middleName, telegram and phone as empty defaults (as the
  record \<^verbatim>\<open>register\<close> creates does). It holds the email only.
\<close>

theorem getMyProfile_only_email:
  "session st_no_profile = Some ''a@b.com'' \<and> profiles st_no_profile ''a@b.com'' = None
   \<and> getMyProfile st_no_profile = Record [''email'' \<mapsto> VStr ''a@b.com'']
   \<and> [''email'' \<mapsto> VStr ''a@b.com''] ''lastName'' = None
   \<and> [''email'' \<mapsto> VStr ''a@b.com''] ''phone'' = None
   \<and> default_profile ''a@b.com'' ''lastName'' = Some (VStr [])"
  by (simp add: st_no_profile_def st_a_def getMyProfile_def Let_def getSessionEmail_def
      obj_get_def object_prototype_keys_def default_profile_def)

text \<open>C9 at a session without a profile record, and at one with its record.\<close>

theorem getMyProfile_absent_witness:
  "session st_no_profile = Some ''a@b.com'' \<and> isValidEmail ''a@b.com''
   \<and> profiles st_no_profile ''a@b.com'' = None
   \<and> getMyProfile st_no_profile = Record [''email'' \<mapsto> VStr ''a@b.com'']
   \<and> session st_a = Some ''a@b.com''
   \<and> getMyProfile st_a = Record (default_profile ''a@b.com'')"
proof -
  have s: "session st_no_profile = Some ''a@b.com''" by (simp add: st_no_profile_def st_a_def)
  have p: "profiles st_no_profile ''a@b.com'' = None" by (simp add: st_no_profile_def)
  have s': "session st_a = Some ''a@b.com''" by (simp add: st_a_def)
  have p': "profiles st_a ''a@b.com'' = Some (default_profile ''a@b.com'')" by (simp add: st_a_def)
  from getMyProfile_absent [OF s valid_a_b] getMyProfile_absent [OF s' valid_a_b] s p s' p' valid_a_b
  show ?thesis by simp
qed

section \<open>Reads of raw storage\<close>

lemma JSON_parse_null: "JSON_parse ''null'' = Some JNull"
  by code_simp

lemma JSON_parse_empty_array: "JSON_parse ''[]'' = Some (JArray [])"
  by code_simp

lemma JSON_parse_empty_object: "JSON_parse ''{}'' = Some (JObject [])"
  by code_simp

lemma JSON_parse_Nil: "JSON_parse [] = None"
  by code_simp

lemma safeJsonParse_item_or:
  assumes "JSON_parse dflt = Some fallback"
  shows "safeJsonParse (item_or ls k dflt) fallback =
           (case ls k of
              None \<Rightarrow> fallback
            | Some s \<Rightarrow> (case JSON_parse s of None \<Rightarrow> fallback | Some v \<Rightarrow> v))"
  using assms
  by (auto simp: safeJsonParse_def item_or_def JSON_parse_Nil split: option.splits)

text \<open>
  C8, as the code has it. When a table's key is absent, or its text is empty or not JSON,
  the read returns the empty default of the table's shape (\<^verbatim>\<open>[]\<close> for
  \<^verbatim>\<open>getUsers\<close> and \<^verbatim>\<open>getHistory\<close>, \<^verbatim>\<open>{}\<close> for \<^verbatim>\<open>getProfile\<close> and
  \<^verbatim>\<open>getRefLog\<close>); no read raises. Text that is JSON is returned as parsed, whatever
  its shape.
\<close>

theorem reads_parse_or_default:
  "(unreadable ls USERS_KEY \<longrightarrow> getUsers ls = JArray [])
   \<and> (unreadable ls PROFILE_KEY \<longrightarrow> getProfile ls = JObject [])
   \<and> (unreadable ls HISTORY_KEY \<longrightarrow> getHistory ls = JArray [])
   \<and> (unreadable ls REF_LOG_KEY \<longrightarrow> getRefLog ls = JObject [])
   \<and> (\<forall>s v. ls USERS_KEY = Some s \<and> JSON_parse s = Some v \<longrightarrow> getUsers ls = v)
   \<and> (\<forall>s v. ls PROFILE_KEY = Some s \<and> JSON_parse s = Some v \<longrightarrow> getProfile ls = v)
   \<and> (\<forall>s v. ls HISTORY_KEY = Some s \<and> JSON_parse s = Some v \<longrightarrow> getHistory ls = v)
   \<and> (\<forall>s v. ls REF_LOG_KEY = Some s \<and> JSON_parse s = Some v \<longrightarrow> getRefLog ls = v)"
  by (auto simp: unreadable_def getUsers_def getProfile_def getHistory_def getRefLog_def
      safeJsonParse_item_or [OF JSON_parse_empty_array] safeJsonParse_item_or [OF JSON_parse_empty_object]
      JSON_parse_Nil split: option.splits)

lemma keys_distinct:
  "USERS_KEY \<noteq> PROFILE_KEY" "USERS_KEY \<noteq> REF_LOG_KEY" "USERS_KEY \<noteq> HISTORY_KEY"
  "PROFILE_KEY \<noteq> REF_LOG_KEY" "PROFILE_KEY \<noteq> HISTORY_KEY" "REF_LOG_KEY \<noteq> HISTORY_KEY"
  by (simp_all add: USERS_KEY_def PROFILE_KEY_def REF_LOG_KEY_def HISTORY_KEY_def)

text \<open>
  C8. The claim: for every string stored under a table's key, the read returns a value of the
  expected shape. For the text \<^verbatim>\<open>null\<close> \<^verbatim>\<open>getUsers\<close> returns null, no array,
  and for \<^verbatim>\<open>[]\<close> \<^verbatim>\<open>getProfile\<close> returns an array, no object.
\<close>

theorem getUsers_returns_null:
  "getUsers ls_null = JNull \<and> \<not> is_array (getUsers ls_null)
   \<and> getProfile ls_null = JArray [] \<and> \<not> is_object (getProfile ls_null)"
  by (simp add: getUsers_def getProfile_def ls_null_def item_or_def safeJsonParse_def
      JSON_parse_null JSON_parse_empty_array keys_distinct)

text \<open>C8 at a storage with broken text under two keys, none under a third, a number under the fourth.\<close>

theorem reads_parse_or_default_witness:
  "unreadable ls_broken USERS_KEY \<and> getUsers ls_broken = JArray []
   \<and> unreadable ls_broken PROFILE_KEY \<and> getProfile ls_broken = JObject []
   \<and> unreadable ls_broken HISTORY_KEY \<and> getHistory ls_broken = JArray []
   \<and> ls_broken REF_LOG_KEY = Some ''7'' \<and> JSON_parse ''7'' = Some (JNumber ''7'')
   \<and> getRefLog ls_broken = JNumber ''7''"
proof -
  have a: "JSON_parse ''{oops'' = None" by code_simp
  have b: "JSON_parse ''[1,'' = None" by code_simp
  have c: "JSON_parse ''7'' = Some (JNumber ''7'')" by code_simp
  have u: "unreadable ls_broken USERS_KEY" "unreadable ls_broken PROFILE_KEY"
    "unreadable ls_broken HISTORY_KEY" "ls_broken REF_LOG_KEY = Some ''7''"
    by (simp_all add: unreadable_def ls_broken_def keys_distinct keys_distinct [symmetric] a b)
  from reads_parse_or_default [of ls_broken] u c show ?thesis by simp
qed

text \<open>Text the code wrote is read back as the table.\<close>

lemma getUsers_users_text_a:
  "getUsers [USERS_KEY \<mapsto> users_text_a] =
     JArray [JObject [(''email'', JString ''a@b.com''), (''passHash'', JString ''fallback_c8ad98f6''),
                      (''refCode'', JString ''AAAAAAAA''), (''referredBy'', JString [])]]"
proof -
  have "JSON_parse users_text_a =
     Some (JArray [JObject [(''email'', JString ''a@b.com''), (''passHash'', JString ''fallback_c8ad98f6''),
                      (''refCode'', JString ''AAAAAAAA''), (''referredBy'', JString [])]])"
    by code_simp
  moreover have "users_text_a \<noteq> []" by (simp add: users_text_a_def)
  ultimately show ?thesis by (simp add: getUsers_def item_or_def safeJsonParse_def)
qed

end
